theory Spec2Isabelle
  imports Complex_Main
begin

unbundle bit_operations_syntax

section \<open>Workshop Thermal Camera: the frame pipeline\<close>

text \<open>
  A shallow embedding of the thermal frame pipeline of the Workshop Thermal Camera:
  \<^verbatim>\<open>CameraAMG88xx.acquire\<close> and \<^verbatim>\<open>_ulab_bilinear_interpolation\<close>
  (cameras/amg88xx.py), the grid renderer and the row encoder of \<^verbatim>\<open>Display\<close>
  (bundle/wtc_display.py) and the bitmap builder of \<^verbatim>\<open>capture_grid_and_upload\<close>
  (bundle/code.py).

  Python's unbounded integers are \<open>int\<close>; sizes, loop counters and list positions that
  the code never lets go negative are \<open>nat\<close>. Floating-point numbers are modelled by
  exact reals extended with the special values of IEEE arithmetic (see \<open>fl\<close> below):
  rounding error is not modelled, division by zero is.
\<close>

subsection \<open>Python errors\<close>

datatype py_error =
  IndexError | ValueError | ZeroDivisionError | OverflowError | AttributeError | StructError
  | PaletteError

subsection \<open>Colours: \<^verbatim>\<open>Display.rgb888_to_bgr888_tuple\<close>\<close>

text \<open>
  \<^verbatim>\<open>_red = (rgb_color >> 16) & 0xFF\<close>, \<^verbatim>\<open>_grn = (rgb_color >> 8) & 0xFF\<close>,
  \<^verbatim>\<open>_blu = (rgb_color >> 0) & 0xFF\<close>, returned as \<^verbatim>\<open>(_blu, _grn, _red)\<close>.
  Python's shifts and masks on (possibly negative) integers are those of two's complement
  of unbounded width, as \<open>drop_bit\<close> and \<open>AND\<close> on \<open>int\<close> are.
\<close>

definition rgb888_to_bgr888_tuple :: "int \<Rightarrow> int \<times> int \<times> int" where
  "rgb888_to_bgr888_tuple rgb_color =
     (let red = drop_bit 16 rgb_color AND 255;
          grn = drop_bit 8 rgb_color AND 255;
          blu = drop_bit 0 rgb_color AND 255
      in (blu, grn, red))"

subsection \<open>Floating-point values\<close>

text \<open>
  A float is a real number or one of the special values of IEEE arithmetic. The array
  library (ulab) divides element by element in C, so a division by zero raises nothing:
  \<open>0 / 0\<close> is not-a-number and \<open>x / 0\<close> with \<open>x \<noteq> 0\<close> is an infinity. Python's own
  float division, by contrast, raises \<^verbatim>\<open>ZeroDivisionError\<close>. Rounding error and the sign
  of zero are not modelled (a zero divisor counts as \<open>+0\<close>).
\<close>

datatype fl = Fin real | PInf | NInf | NaN

fun fl_add :: "fl \<Rightarrow> fl \<Rightarrow> fl" where
  "fl_add (Fin a) (Fin b) = Fin (a + b)"
| "fl_add NaN _ = NaN"
| "fl_add _ NaN = NaN"
| "fl_add PInf NInf = NaN"
| "fl_add NInf PInf = NaN"
| "fl_add PInf _ = PInf"
| "fl_add _ PInf = PInf"
| "fl_add NInf _ = NInf"
| "fl_add _ NInf = NInf"

fun fl_div :: "fl \<Rightarrow> real \<Rightarrow> fl" where
  "fl_div (Fin a) d =
     (if d \<noteq> 0 then Fin (a / d)
      else if a = 0 then NaN else if 0 < a then PInf else NInf)"
| "fl_div PInf d = (if d < 0 then NInf else PInf)"
| "fl_div NInf d = (if d < 0 then PInf else NInf)"
| "fl_div NaN d = NaN"

fun fl_mul :: "fl \<Rightarrow> real \<Rightarrow> fl" where
  "fl_mul (Fin a) k = Fin (a * k)"
| "fl_mul PInf k = (if k = 0 then NaN else if 0 < k then PInf else NInf)"
| "fl_mul NInf k = (if k = 0 then NaN else if 0 < k then NInf else PInf)"
| "fl_mul NaN k = NaN"

subsection \<open>Two-dimensional arrays and strided views\<close>

text \<open>
  A two-dimensional \<^verbatim>\<open>np.array\<close>: its rows, and the number of columns (which the rows
  alone do not give when there are none). \<open>wf_array\<close> is the invariant that every row has
  \<open>ncols\<close> cells.
\<close>

record 'a ndarray =
  ncols :: nat
  rows :: "'a list list"

definition nrows :: "'a ndarray \<Rightarrow> nat" where
  "nrows a = length (rows a)"

definition shape :: "'a ndarray \<Rightarrow> nat \<times> nat" where
  "shape a = (nrows a, ncols a)"

definition wf_array :: "'a ndarray \<Rightarrow> bool" where
  "wf_array a = list_all (\<lambda>r. length r = ncols a) (rows a)"

definition cell :: "'a ndarray \<Rightarrow> nat \<Rightarrow> nat \<Rightarrow> 'a" where
  "cell a i j = rows a ! i ! j"

definition elems :: "'a ndarray \<Rightarrow> 'a list" where
  "elems a = concat (rows a)"

definition map_array :: "('a \<Rightarrow> 'b) \<Rightarrow> 'a ndarray \<Rightarrow> 'b ndarray" where
  "map_array f a = \<lparr>ncols = ncols a, rows = map (map f) (rows a)\<rparr>"

text \<open>\<^verbatim>\<open>np.array(sensor)\<close> of a list of lists: the rows must have one length.\<close>

definition np_array :: "'a list list \<Rightarrow> py_error + 'a ndarray" where
  "np_array xss =
     (case xss of
        [] \<Rightarrow> Inr \<lparr>ncols = 0, rows = []\<rparr>
      | r # _ \<Rightarrow>
          if list_all (\<lambda>r'. length r' = length r) xss
          then Inr \<lparr>ncols = length r, rows = xss\<rparr>
          else Inl ValueError)"

text \<open>
  A slice \<^verbatim>\<open>a:b:k\<close> with a positive step, resolved against an axis of length \<open>n\<close> as
  Python does (\<^verbatim>\<open>slice.indices\<close>): a missing bound is the end of the axis, a negative
  bound counts from the end, and both are cut to the axis. The resolved slice
  \<open>(a, b, k)\<close> selects \<open>a, a + k, a + 2k, \<dots>\<close> below \<open>b\<close>.
\<close>

type_synonym slice = "nat \<times> nat \<times> nat"

definition resolve :: "int option \<Rightarrow> nat \<Rightarrow> nat \<Rightarrow> nat" where
  "resolve b d n =
     (case b of
        None \<Rightarrow> d
      | Some i \<Rightarrow> if i < 0 then nat (max 0 (int n + i)) else min n (nat i))"

definition py_slice :: "int option \<Rightarrow> int option \<Rightarrow> nat \<Rightarrow> nat \<Rightarrow> slice" where
  "py_slice a b k n = (resolve a 0 n, resolve b n n, k)"

definition slice_len :: "slice \<Rightarrow> nat" where
  "slice_len s = (case s of (a, b, k) \<Rightarrow> (b - a + k - 1) div k)"

definition slice_nth :: "slice \<Rightarrow> nat \<Rightarrow> nat" where
  "slice_nth s i = (case s of (a, b, k) \<Rightarrow> a + i * k)"

definition in_slice :: "slice \<Rightarrow> nat \<Rightarrow> bool" where
  "in_slice s n = (case s of (a, b, k) \<Rightarrow> a \<le> n \<and> n < b \<and> (n - a) mod k = 0)"

definition slice_pos :: "slice \<Rightarrow> nat \<Rightarrow> nat" where
  "slice_pos s n = (case s of (a, b, k) \<Rightarrow> (n - a) div k)"

text \<open>
  The view \<^verbatim>\<open>g[rs, cs]\<close> read as an array, and the assignment \<^verbatim>\<open>g[rs, cs] = v\<close>.
  The two slices are given as functions of the axis length. An assignment, like an
  elementwise operation, needs operands of one shape and is a \<^verbatim>\<open>ValueError\<close> otherwise
  (numpy's broadcasting of an axis of length 1 is not modelled; every result below is
  about operands of equal shapes).
\<close>

definition get_view ::
  "(nat \<Rightarrow> slice) \<Rightarrow> (nat \<Rightarrow> slice) \<Rightarrow> 'a ndarray \<Rightarrow> 'a ndarray" where
  "get_view rs cs g =
     (let sr = rs (nrows g); sc = cs (ncols g)
      in \<lparr>ncols = slice_len sc,
          rows = map (\<lambda>i. map (\<lambda>j. cell g (slice_nth sr i) (slice_nth sc j))
                              [0..<slice_len sc])
                     [0..<slice_len sr]\<rparr>)"

definition set_view ::
  "(nat \<Rightarrow> slice) \<Rightarrow> (nat \<Rightarrow> slice) \<Rightarrow> 'a ndarray \<Rightarrow> 'a ndarray \<Rightarrow> py_error + 'a ndarray" where
  "set_view rs cs v g =
     (let sr = rs (nrows g); sc = cs (ncols g)
      in if shape v \<noteq> (slice_len sr, slice_len sc) then Inl ValueError
         else Inr \<lparr>ncols = ncols g,
                   rows = map (\<lambda>i. map (\<lambda>j. if in_slice sr i \<and> in_slice sc j
                                              then cell v (slice_pos sr i) (slice_pos sc j)
                                              else cell g i j)
                                       [0..<ncols g])
                              [0..<nrows g]\<rparr>)"

definition np_add :: "fl ndarray \<Rightarrow> fl ndarray \<Rightarrow> py_error + fl ndarray" where
  "np_add a b =
     (if shape a \<noteq> shape b then Inl ValueError
      else Inr \<lparr>ncols = ncols a, rows = map2 (map2 fl_add) (rows a) (rows b)\<rparr>)"

definition np_div :: "fl ndarray \<Rightarrow> real \<Rightarrow> fl ndarray" where
  "np_div a d = map_array (\<lambda>x. fl_div x d) a"

text \<open>\<^verbatim>\<open>np.clip(a, a_min, a_max)\<close>, which ulab computes as
  \<^verbatim>\<open>maximum(a_min, minimum(a, a_max))\<close>; \<^verbatim>\<open>np.flip\<close> along either axis.\<close>

definition clip :: "real \<Rightarrow> real \<Rightarrow> real \<Rightarrow> real" where
  "clip a_min a_max x = max a_min (min x a_max)"

definition np_clip :: "real ndarray \<Rightarrow> real \<Rightarrow> real \<Rightarrow> real ndarray" where
  "np_clip a a_min a_max = map_array (clip a_min a_max) a"

definition np_flip :: "'a ndarray \<Rightarrow> nat \<Rightarrow> 'a ndarray" where
  "np_flip a axis =
     (if axis = 0 then a\<lparr>rows := rev (rows a)\<rparr> else a\<lparr>rows := map rev (rows a)\<rparr>)"

text \<open>
  \<^verbatim>\<open>np.min\<close>, \<^verbatim>\<open>np.mean\<close> and \<^verbatim>\<open>np.max\<close> over all cells: a running minimum or maximum
  from the first cell on, and the sum over the count. The minimum and the maximum of an
  array without cells are a \<^verbatim>\<open>ValueError\<close>.
\<close>

definition np_min :: "real ndarray \<Rightarrow> py_error + real" where
  "np_min a = (case elems a of [] \<Rightarrow> Inl ValueError | x # xs \<Rightarrow> Inr (fold min xs x))"

definition np_max :: "real ndarray \<Rightarrow> py_error + real" where
  "np_max a = (case elems a of [] \<Rightarrow> Inl ValueError | x # xs \<Rightarrow> Inr (fold max xs x))"

definition np_mean :: "real ndarray \<Rightarrow> real" where
  "np_mean a = sum_list (elems a) / real (length (elems a))"

subsection \<open>Statements that mutate an object and may raise\<close>

text \<open>
  A statement acts on the object's state and either completes or raises. What it changed
  before raising stays changed, so the state is returned in both cases.
\<close>

type_synonym 's cmd = "'s \<Rightarrow> 's \<times> py_error option"

definition seq :: "'s cmd \<Rightarrow> 's cmd \<Rightarrow> 's cmd" where
  "seq c1 c2 s = (case c1 s of (s', None) \<Rightarrow> c2 s' | (s', Some e) \<Rightarrow> (s', Some e))"

subsection \<open>The camera: \<^verbatim>\<open>CameraAMG88xx\<close>\<close>

record camera =
  range_min_c :: real
  range_max_c :: real
  auto_focus :: bool
  interpolate :: bool
  sensor_axis :: "nat \<times> nat"
  cam_grid_axis :: "nat \<times> nat"
  sensor_data :: "fl ndarray"
  grid_data :: "fl ndarray"
  sensor_min_c :: real
  sensor_avg_c :: real
  sensor_max_c :: real

text \<open>\<^verbatim>\<open>np.array(xs).reshape((r, c))\<close> of a flat sequence of \<open>r * c\<close> values.\<close>

definition reshape :: "'a list \<Rightarrow> nat \<times> nat \<Rightarrow> 'a ndarray" where
  "reshape xs sh =
     (case sh of (r, c) \<Rightarrow> \<lparr>ncols = c, rows = map (\<lambda>i. take c (drop (i * c) xs)) [0..<r]\<rparr>)"

text \<open>
  \<^verbatim>\<open>__init__\<close>: the sensor is 8 by 8; the grid is 15 by 15 when interpolating and is
  loaded with a descending spectrum, \<^verbatim>\<open>range(n, 0, -1)\<close> over \<open>n\<close>. The bus and the
  sensor driver are outside the model: a frame of samples is an argument of \<open>acquire\<close>.
\<close>

definition CameraAMG88xx :: "real \<times> real \<Rightarrow> bool \<Rightarrow> bool \<Rightarrow> camera" where
  "CameraAMG88xx temp_range_c auto_focus' interpolate' =
     (let s_axis = (8, 8);
          g_axis = (if interpolate' then (2 * fst s_axis - 1, 2 * snd s_axis - 1) else s_axis);
          n = fst g_axis * snd g_axis
      in \<lparr>range_min_c = fst temp_range_c,
          range_max_c = snd temp_range_c,
          auto_focus = auto_focus',
          interpolate = interpolate',
          sensor_axis = s_axis,
          cam_grid_axis = g_axis,
          sensor_data = reshape (map (\<lambda>k. Fin (real k)) [0..<fst s_axis * snd s_axis]) s_axis,
          grid_data = np_div (reshape (map (\<lambda>k. Fin (real (n - k))) [0..<n]) g_axis) (real n),
          sensor_min_c = 0,
          sensor_avg_c = 0,
          sensor_max_c = 0\<rparr>)"

text \<open>\<^verbatim>\<open>statistics\<close>: the minimum, average and maximum of the latest acquisition.\<close>

definition statistics :: "camera \<Rightarrow> real \<times> real \<times> real" where
  "statistics cam = (sensor_min_c cam, sensor_avg_c cam, sensor_max_c cam)"

text \<open>
  \<^verbatim>\<open>self._grid_data[rs, cs] = rhs\<close>, where the right-hand side is computed from the
  current state and may itself raise.
\<close>

definition assign_grid ::
  "(nat \<Rightarrow> slice) \<Rightarrow> (nat \<Rightarrow> slice) \<Rightarrow> (camera \<Rightarrow> py_error + fl ndarray) \<Rightarrow> camera cmd" where
  "assign_grid rs cs rhs cam =
     (case rhs cam of
        Inl e \<Rightarrow> (cam, Some e)
      | Inr v \<Rightarrow>
          (case set_view rs cs v (grid_data cam) of
             Inl e \<Rightarrow> (cam, Some e)
           | Inr g \<Rightarrow> (cam\<lparr>grid_data := g\<rparr>, None)))"

text \<open>
  \<^verbatim>\<open>_ulab_bilinear_interpolation\<close>, statement by statement:
  \<^verbatim>\<open>
    self._grid_data[1::2, ::2] = self._sensor_data[:-1, :]
    self._grid_data[1::2, ::2] += self._sensor_data[1:, :]
    self._grid_data[1::2, ::2] /= 2
    self._grid_data[::, 1::2] = self._grid_data[::, :-1:2]
    self._grid_data[::, 1::2] += self._grid_data[::, 2::2]
    self._grid_data[::, 1::2] /= 2
  \<close>
  An augmented assignment reads the view, computes, and assigns the view.
\<close>

definition ulab_bilinear_interpolation :: "camera cmd" where
  "ulab_bilinear_interpolation =
     seq (assign_grid (py_slice (Some 1) None 2) (py_slice None None 2)
            (\<lambda>c. Inr (get_view (py_slice None (Some (- 1)) 1) (py_slice None None 1)
                         (sensor_data c))))
    (seq (assign_grid (py_slice (Some 1) None 2) (py_slice None None 2)
            (\<lambda>c. np_add (get_view (py_slice (Some 1) None 2) (py_slice None None 2) (grid_data c))
                         (get_view (py_slice (Some 1) None 1) (py_slice None None 1)
                            (sensor_data c))))
    (seq (assign_grid (py_slice (Some 1) None 2) (py_slice None None 2)
            (\<lambda>c. Inr (np_div (get_view (py_slice (Some 1) None 2) (py_slice None None 2)
                                 (grid_data c)) 2)))
    (seq (assign_grid (py_slice None None 1) (py_slice (Some 1) None 2)
            (\<lambda>c. Inr (get_view (py_slice None None 1) (py_slice None (Some (- 1)) 2)
                         (grid_data c))))
    (seq (assign_grid (py_slice None None 1) (py_slice (Some 1) None 2)
            (\<lambda>c. np_add (get_view (py_slice None None 1) (py_slice (Some 1) None 2) (grid_data c))
                         (get_view (py_slice None None 1) (py_slice (Some 2) None 2)
                            (grid_data c))))
         (assign_grid (py_slice None None 1) (py_slice (Some 1) None 2)
            (\<lambda>c. Inr (np_div (get_view (py_slice None None 1) (py_slice (Some 1) None 2)
                                 (grid_data c)) 2)))))))"

text \<open>
  The interpolating branch of \<^verbatim>\<open>acquire\<close>: copy the sensor data to the even cells,
  \<^verbatim>\<open>self._grid_data[::2, ::2] = self._sensor_data\<close>, then interpolate.
\<close>

definition upscale :: "camera cmd" where
  "upscale =
     seq (assign_grid (py_slice None None 2) (py_slice None None 2) (\<lambda>c. Inr (sensor_data c)))
         ulab_bilinear_interpolation"

text \<open>
  \<^verbatim>\<open>acquire\<close>. The argument is \<^verbatim>\<open>self._amg8833.pixels\<close>, a list of rows of finite
  temperatures. Clip, flip both axes, take the statistics, normalise (by the frame's own
  range with autofocus, by the configured range without), and upscale when interpolating.
  The result is the camera after the call and the returned array, or the error raised.
\<close>

definition acquire :: "camera \<Rightarrow> real list list \<Rightarrow> camera \<times> (py_error + fl ndarray)" where
  "acquire cam sensor =
     (case np_array sensor of
        Inl e \<Rightarrow> (cam, Inl e)
      | Inr a \<Rightarrow>
          let data = np_flip (np_flip (np_clip a (range_min_c cam) (range_max_c cam)) 0) 1;
              cam1 = cam\<lparr>sensor_data := map_array Fin data\<rparr>
          in case np_min data of
               Inl e \<Rightarrow> (cam1, Inl e)
             | Inr mn \<Rightarrow>
                 let cam2 = cam1\<lparr>sensor_min_c := mn\<rparr>;
                     cam3 = cam2\<lparr>sensor_avg_c := np_mean data\<rparr>
                 in case np_max data of
                      Inl e \<Rightarrow> (cam3, Inl e)
                    | Inr mx \<Rightarrow>
                        let cam4 = cam3\<lparr>sensor_max_c := mx\<rparr>;
                            norm =
                              (if auto_focus cam4
                               then np_div (map_array (\<lambda>x. Fin (x - sensor_min_c cam4)) data)
                                      (sensor_max_c cam4 - sensor_min_c cam4)
                               else np_div (map_array (\<lambda>x. Fin (x - range_min_c cam4)) data)
                                      (range_max_c cam4 - range_min_c cam4));
                            cam5 = cam4\<lparr>sensor_data := norm\<rparr>
                        in if interpolate cam5
                           then (case upscale cam5 of
                                   (cam6, Some e) \<Rightarrow> (cam6, Inl e)
                                 | (cam6, None) \<Rightarrow> (cam6, Inr (grid_data cam6)))
                           else (cam5, Inr (sensor_data cam5)))"

subsection \<open>Arrays as functions of the position\<close>

text \<open>
  \<open>is_grid g R C f\<close>: the array \<open>g\<close> has \<open>R\<close> rows of \<open>C\<close> cells, and its cell at
  \<open>(i, j)\<close> is \<open>f i j\<close>. \<open>valid_slice s n\<close>: the resolved slice \<open>s\<close> has a positive step and
  stays within an axis of length \<open>n\<close>.
\<close>

definition is_grid :: "'a ndarray \<Rightarrow> nat \<Rightarrow> nat \<Rightarrow> (nat \<Rightarrow> nat \<Rightarrow> 'a) \<Rightarrow> bool" where
  "is_grid g R C f =
     (nrows g = R \<and> ncols g = C \<and> wf_array g \<and> (\<forall>i<R. \<forall>j<C. cell g i j = f i j))"

definition valid_slice :: "slice \<Rightarrow> nat \<Rightarrow> bool" where
  "valid_slice s n = (case s of (a, b, k) \<Rightarrow> 0 < k \<and> b \<le> n)"

subsection \<open>A small camera\<close>

text \<open>
  The operations of the camera do not depend on the size of the sensor. A camera with a
  2 by 2 sensor and a 3 by 3 grid, holding the source \<open>[[1/4, 1], [3/4, 0]]\<close>, serves for
  examples.
\<close>

definition camera_2x2 :: camera where
  "camera_2x2 =
     \<lparr>range_min_c = 0, range_max_c = 80, auto_focus = True, interpolate = True,
      sensor_axis = (2, 2), cam_grid_axis = (3, 3),
      sensor_data = \<lparr>ncols = 2, rows = [[Fin (1 / 4), Fin 1], [Fin (3 / 4), Fin 0]]\<rparr>,
      grid_data = \<lparr>ncols = 3, rows = [[Fin 9, Fin 8, Fin 7], [Fin 6, Fin 5, Fin 4],
                                          [Fin 3, Fin 2, Fin 1]]\<rparr>,
      sensor_min_c = 0, sensor_avg_c = 0, sensor_max_c = 0\<rparr>"

subsection \<open>Loops over a range\<close>

text \<open>\<^verbatim>\<open>for x in xs: body\<close>: the body runs for each item in turn and the loop stops at the
  first item whose body raises.\<close>

fun for_each :: "('x \<Rightarrow> 's cmd) \<Rightarrow> 'x list \<Rightarrow> 's cmd" where
  "for_each body [] s = (s, None)"
| "for_each body (x # xs) s =
     (case body x s of (s', None) \<Rightarrow> for_each body xs s' | (s', Some e) \<Rightarrow> (s', Some e))"

subsection \<open>Python scalars\<close>

text \<open>
  \<^verbatim>\<open>round(x, 0)\<close> of a float: the nearest integer, a tie going to the even one, as a
  float; the special values are returned as they are. \<^verbatim>\<open>round(x, 3)\<close> does the same at
  the third decimal. \<^verbatim>\<open>int(x)\<close> cuts towards zero and raises on the special values.
\<close>

definition round_half_even :: "real \<Rightarrow> int" where
  "round_half_even x =
     (let f = \<lfloor>x\<rfloor>; d = x - of_int f
      in if d < 1 / 2 then f else if 1 / 2 < d then f + 1 else if even f then f else f + 1)"

fun py_round :: "fl \<Rightarrow> nat \<Rightarrow> fl" where
  "py_round (Fin x) ndigits = Fin (of_int (round_half_even (x * 10 ^ ndigits)) / 10 ^ ndigits)"
| "py_round v ndigits = v"

fun py_int :: "fl \<Rightarrow> py_error + int" where
  "py_int (Fin x) = Inr (if 0 \<le> x then \<lfloor>x\<rfloor> else \<lceil>x\<rceil>)"
| "py_int NaN = Inl ValueError"
| "py_int v = Inl OverflowError"

text \<open>Python's \<^verbatim>\<open>x / n\<close> of a float by an integer raises when \<open>n\<close> is zero.\<close>

definition py_truediv :: "fl \<Rightarrow> int \<Rightarrow> py_error + fl" where
  "py_truediv x n = (if n = 0 then Inl ZeroDivisionError else Inr (fl_div x (of_int n)))"

text \<open>\<^verbatim>\<open>a[i][j]\<close> of a two-dimensional array with non-negative indices.\<close>

definition getitem2 :: "'a ndarray \<Rightarrow> nat \<Rightarrow> nat \<Rightarrow> py_error + 'a" where
  "getitem2 a i j =
     (if i < nrows a then (if j < ncols a then Inr (cell a i j) else Inl IndexError)
      else Inl IndexError)"

subsection \<open>The display: \<^verbatim>\<open>Display\<close>\<close>

text \<open>
  \<^verbatim>\<open>image_group\<close> holds the grid cells (rectangles with a fill colour) followed by nine
  text labels. A label has no \<^verbatim>\<open>fill\<close> until one is assigned to it: reading it raises
  \<^verbatim>\<open>AttributeError\<close>. \<open>fill_writes\<close> is not a field of the class: it logs every
  assignment to a \<^verbatim>\<open>fill\<close> (group index and colour), which is what the display hardware
  has to redraw.
\<close>

datatype element = Rect int | Label "int option"

fun get_fill :: "element \<Rightarrow> py_error + int" where
  "get_fill (Rect c) = Inr c"
| "get_fill (Label None) = Inl AttributeError"
| "get_fill (Label (Some c)) = Inr c"

fun set_fill :: "int \<Rightarrow> element \<Rightarrow> element" where
  "set_fill c (Rect _) = Rect c"
| "set_fill c (Label _) = Label (Some c)"

record display =
  grid_axis :: "nat \<times> nat"
  palette_size :: int
  image_group :: "element list"
  fill_writes :: "(nat \<times> int) list"

definition BLACK :: int where "BLACK = 0x000000"
definition BLUE :: int where "BLUE = 0x0000FF"
definition PURPLE :: int where "PURPLE = 0xFF00FF"
definition RED :: int where "RED = 0xFF0000"
definition WHITE :: int where "WHITE = 0xFFFFFF"

text \<open>\<^verbatim>\<open>__init__\<close>: one purple cell per grid position, row by row, then the nine labels.\<close>

definition Display :: "nat \<times> nat \<Rightarrow> int \<Rightarrow> display" where
  "Display grid_axis' palette_size' =
     \<lparr>grid_axis = grid_axis',
      palette_size = palette_size',
      image_group =
        concat (map (\<lambda>row. map (\<lambda>col. Rect PURPLE) [0..<fst grid_axis']) [0..<snd grid_axis'])
        @ replicate 9 (Label None),
      fill_writes = []\<rparr>"


definition screen_index :: "display \<Rightarrow> nat \<Rightarrow> nat \<Rightarrow> nat" where
  "screen_index d row col = row * fst (grid_axis d) + col"

text \<open>Reading and assigning \<^verbatim>\<open>self.image_group[i].fill\<close>.\<close>

definition read_fill :: "display \<Rightarrow> nat \<Rightarrow> py_error + int" where
  "read_fill d i =
     (if i < length (image_group d) then get_fill (image_group d ! i) else Inl IndexError)"

definition write_fill :: "nat \<Rightarrow> int \<Rightarrow> display cmd" where
  "write_fill i c d =
     (if i < length (image_group d)
      then (d\<lparr>image_group := (image_group d)[i := set_fill c (image_group d ! i)],
              fill_writes := fill_writes d @ [(i, c)]\<rparr>, None)
      else (d, Some IndexError))"

text \<open>
  \<^verbatim>\<open>update_image_frame\<close>. The palette \<^verbatim>\<open>index_to_rgb\<close> is imported from a module outside
  the repository's sources, so it is a parameter \<open>index_to_rgb\<close>: any function from a
  float to a colour that may raise. The colour of a cell is
  \<^verbatim>\<open>index_to_rgb(round(color_index * palette_size, 0) / palette_size)\<close>, where
  \<^verbatim>\<open>color_index\<close> is \<^verbatim>\<open>grid_data[_col][grid_axis[1] - 1 - _row]\<close> with \<^verbatim>\<open>selfie\<close>
  and \<^verbatim>\<open>grid_data[_col][_row]\<close> without.
\<close>

definition palette_color :: "(fl \<Rightarrow> py_error + int) \<Rightarrow> display \<Rightarrow> fl \<Rightarrow> py_error + int" where
  "palette_color index_to_rgb d color_index =
     (case py_truediv (py_round (fl_mul color_index (of_int (palette_size d))) 0)
             (palette_size d) of
        Inl e \<Rightarrow> Inl e
      | Inr index \<Rightarrow> index_to_rgb index)"

definition cell_color ::
  "(fl \<Rightarrow> py_error + int) \<Rightarrow> display \<Rightarrow> fl ndarray \<Rightarrow> bool \<Rightarrow> nat \<Rightarrow> nat \<Rightarrow> py_error + int" where
  "cell_color index_to_rgb d grid selfie col row =
     (case (if selfie then getitem2 grid col (snd (grid_axis d) - 1 - row)
            else getitem2 grid col row) of
        Inl e \<Rightarrow> Inl e
      | Inr color_index \<Rightarrow> palette_color index_to_rgb d color_index)"

text \<open>
  The body of the inner loop: compute the colour, then
  \<^verbatim>\<open>if color != self.image_group[group_index].fill: self.image_group[group_index].fill = color\<close>
  with \<^verbatim>\<open>group_index = (_col * self._grid_axis[1]) + _row\<close>.
\<close>

definition paint :: "nat \<Rightarrow> py_error + int \<Rightarrow> display cmd" where
  "paint group_index color d =
     (case color of
        Inl e \<Rightarrow> (d, Some e)
      | Inr c \<Rightarrow>
          (case read_fill d group_index of
             Inl e \<Rightarrow> (d, Some e)
           | Inr fill \<Rightarrow> if c \<noteq> fill then write_fill group_index c d else (d, None)))"

definition update_cell ::
  "(fl \<Rightarrow> py_error + int) \<Rightarrow> fl ndarray \<Rightarrow> bool \<Rightarrow> nat \<Rightarrow> nat \<Rightarrow> display cmd" where
  "update_cell index_to_rgb grid selfie col row d =
     paint (col * snd (grid_axis d) + row) (cell_color index_to_rgb d grid selfie col row) d"

definition update_image_frame ::
  "(fl \<Rightarrow> py_error + int) \<Rightarrow> fl ndarray \<Rightarrow> bool \<Rightarrow> display cmd" where
  "update_image_frame index_to_rgb grid selfie d =
     for_each (\<lambda>col. for_each (\<lambda>row. update_cell index_to_rgb grid selfie col row)
                               [0..<snd (grid_axis d)])
              [0..<fst (grid_axis d)] d"

text \<open>
  Modelled from the spec: \<^verbatim>\<open>index_to_rgb\<close> (module \<^verbatim>\<open>index_to_rgb_iron\<close>) is not among
  the sources. The spec describes a pure function from a normalised value to an RGB colour
  along a ramp from black at \<open>0.0\<close> to white at \<open>1.0\<close>, with out-of-range input clamped and
  not faulted.
  \<open>ramp_palette\<close> is a grey ramp with these properties, used in examples only; every
  general result takes the palette as a parameter.
\<close>

definition ramp_palette :: "fl \<Rightarrow> py_error + int" where
  "ramp_palette v =
     (case v of
        Fin x \<Rightarrow> (let k = round_half_even (255 * max 0 (min 1 x)) in Inr (k * 65536 + k * 256 + k))
      | PInf \<Rightarrow> Inr WHITE
      | NInf \<Rightarrow> Inr BLACK
      | NaN \<Rightarrow> Inr BLACK)"

text \<open>
  The cells of a frame in the order in which the two loops visit them, and for each its
  group index with the colour computed for it (or the error that computing it raises).
\<close>

definition frame_cells :: "display \<Rightarrow> (nat \<times> nat) list" where
  "frame_cells d =
     concat (map (\<lambda>col. map (Pair col) [0..<snd (grid_axis d)]) [0..<fst (grid_axis d)])"

definition frame_tasks ::
  "(fl \<Rightarrow> py_error + int) \<Rightarrow> fl ndarray \<Rightarrow> bool \<Rightarrow> display \<Rightarrow> (nat \<times> (py_error + int)) list" where
  "frame_tasks index_to_rgb grid selfie d =
     map (\<lambda>(col, row). (col * snd (grid_axis d) + row,
                         cell_color index_to_rgb d grid selfie col row))
         (frame_cells d)"

definition run_tasks :: "(nat \<times> (py_error + int)) list \<Rightarrow> display cmd" where
  "run_tasks ts = for_each (\<lambda>t. paint (fst t) (snd t)) ts"

subsection \<open>The bitmap encoder\<close>

text \<open>\<^verbatim>\<open>Display.bytes_per_row\<close>: three bytes per pixel, padded to a multiple of four.\<close>

definition bytes_per_row :: "nat \<Rightarrow> nat" where
  "bytes_per_row source_width =
     (let pixel_bytes = 3 * source_width;
          padding_bytes = (4 - (pixel_bytes mod 4)) mod 4
      in pixel_bytes + padding_bytes)"

text \<open>
  \<^verbatim>\<open>fetch_grid_row_bgr_colors\<close>. The row buffer is an array of
  \<^verbatim>\<open>bytes_per_row(grid_axis[0])\<close> zero bytes; for each column, in descending order with
  \<^verbatim>\<open>selfie\<close>, the three bytes of the fill of \<^verbatim>\<open>image_group[row * grid_axis[1] + _col]\<close>
  are stored at \<^verbatim>\<open>_buffer_index\<close>, which then advances by three. The loop state is the
  buffer and the index. A byte is an \<open>int\<close> between 0 and 255.
\<close>

definition fetch_col :: "display \<Rightarrow> nat \<Rightarrow> nat \<Rightarrow> (int list \<times> nat) cmd" where
  "fetch_col d row col st =
     (case st of (row_buffer, buffer_index) \<Rightarrow>
        (case read_fill d (row * snd (grid_axis d) + col) of
           Inl e \<Rightarrow> (st, Some e)
         | Inr rgb_color \<Rightarrow>
             (case rgb888_to_bgr888_tuple rgb_color of (blu, grn, red) \<Rightarrow>
                if buffer_index + 2 < length row_buffer
                then ((row_buffer[buffer_index := blu, buffer_index + 1 := grn,
                                  buffer_index + 2 := red], buffer_index + 3), None)
                else (st, Some IndexError))))"

definition fetch_grid_row_bgr_colors :: "display \<Rightarrow> nat \<Rightarrow> bool \<Rightarrow> py_error + int list" where
  "fetch_grid_row_bgr_colors d row selfie =
     (let row_buffer = replicate (bytes_per_row (fst (grid_axis d))) 0;
          row_range = (if selfie then rev [0..<fst (grid_axis d)] else [0..<fst (grid_axis d)])
      in case for_each (fetch_col d row) row_range (row_buffer, 0) of
           (st, Some e) \<Rightarrow> Inl e
         | (st, None) \<Rightarrow> Inr (fst st))"

text \<open>
  \<^verbatim>\<open>struct.pack("<I", n)\<close> and \<^verbatim>\<open>struct.pack("<H", n)\<close>: the four or two bytes of \<open>n\<close>,
  least significant first; a value that does not fit is an error.
\<close>

definition struct_pack :: "nat \<Rightarrow> nat \<Rightarrow> py_error + int list" where
  "struct_pack nbytes n =
     (if n < 256 ^ nbytes then Inr (map (\<lambda>k. int (n div 256 ^ k mod 256)) [0..<nbytes])
      else Inl StructError)"

definition and_then :: "py_error + 'a \<Rightarrow> ('a \<Rightarrow> py_error + 'b) \<Rightarrow> py_error + 'b" where
  "and_then r f = (case r of Inl e \<Rightarrow> Inl e | Inr x \<Rightarrow> f x)"

text \<open>
  \<^verbatim>\<open>capture_grid_and_upload\<close> up to the call of \<^verbatim>\<open>_send_b64_to_aio\<close>: the result is the
  byte string handed to the upload, \<^verbatim>\<open>bmp_header + dib_header + grid_bmp_data\<close>. The
  module constants \<^verbatim>\<open>SELFIE\<close> and \<^verbatim>\<open>DISPLAY_IMAGE\<close> are parameters. The rows are fetched
  from \<^verbatim>\<open>height - 1\<close> down to \<open>0\<close> and appended.
\<close>

fun fetch_rows :: "display \<Rightarrow> bool \<Rightarrow> nat list \<Rightarrow> int list \<Rightarrow> py_error + int list" where
  "fetch_rows d selfie [] grid_bmp_data = Inr grid_bmp_data"
| "fetch_rows d selfie (row # rs) grid_bmp_data =
     and_then (fetch_grid_row_bgr_colors d row selfie)
       (\<lambda>row_colors. fetch_rows d selfie rs (grid_bmp_data @ row_colors))"

definition bmp_header :: "nat \<Rightarrow> py_error + int list" where
  "bmp_header file_size =
     and_then (struct_pack 4 file_size) (\<lambda>size_bytes.
     and_then (struct_pack 4 54) (\<lambda>offset_bytes.
     Inr ([0x42, 0x4D] @ size_bytes @ [0, 0] @ [0, 0] @ offset_bytes)))"

definition dib_header :: "nat \<Rightarrow> nat \<Rightarrow> py_error + int list" where
  "dib_header width height =
     and_then (struct_pack 4 40) (\<lambda>b40.
     and_then (struct_pack 4 width) (\<lambda>bw.
     and_then (struct_pack 4 height) (\<lambda>bh.
     and_then (struct_pack 2 1) (\<lambda>b1.
     and_then (struct_pack 2 24) (\<lambda>b24.
     Inr (b40 @ bw @ bh @ b1 @ b24 @ replicate 24 0))))))"

definition capture_grid :: "display \<Rightarrow> bool \<Rightarrow> bool \<Rightarrow> py_error + int list" where
  "capture_grid d SELFIE DISPLAY_IMAGE =
     (let width = fst (grid_axis d);
          height = snd (grid_axis d);
          file_size = 54 + height * bytes_per_row width
      in and_then (bmp_header file_size) (\<lambda>bmp.
         and_then (dib_header width height) (\<lambda>dib.
         and_then (fetch_rows d (SELFIE \<and> DISPLAY_IMAGE) (rev [0..<height]) [])
           (\<lambda>grid_bmp_data. Inr (bmp @ dib @ grid_bmp_data)))))"



definition bgr_bytes :: "int \<Rightarrow> int list" where
  "bgr_bytes rgb_color = (case rgb888_to_bgr888_tuple rgb_color of (blu, grn, red) \<Rightarrow> [blu, grn, red])"

definition row_pixels :: "nat \<Rightarrow> int list \<Rightarrow> int list list" where
  "row_pixels width buf = map (\<lambda>k. take 3 (drop (3 * k) buf)) [0..<width]"

definition screen_row :: "display \<Rightarrow> nat \<Rightarrow> (py_error + int) list" where
  "screen_row d row = map (\<lambda>col. read_fill d (row * fst (grid_axis d) + col)) [0..<fst (grid_axis d)]"

section \<open>Properties\<close>

subsection \<open>Colour components\<close>

lemma and_255_take_bit: "(x::int) AND 255 = take_bit 8 x"
  using take_bit_eq_mask[of 8 x] by (simp add: mask_eq_exp_minus_1)

lemma take_bit_8_le: "take_bit 8 (x::int) \<le> 255"
  using take_bit_int_less_exp[of 8 x] by simp

lemma bgr_components_range:
  "case rgb888_to_bgr888_tuple c of (b, g, r) \<Rightarrow>
     0 \<le> b \<and> b \<le> 255 \<and> 0 \<le> g \<and> g \<le> 255 \<and> 0 \<le> r \<and> r \<le> 255"
  unfolding rgb888_to_bgr888_tuple_def Let_def and_255_take_bit
  by (simp add: take_bit_8_le)

lemma bgr_components_recombine:
  "case rgb888_to_bgr888_tuple c of (b, g, r) \<Rightarrow>
     push_bit 16 r OR push_bit 8 g OR b = take_bit 24 c"
  unfolding rgb888_to_bgr888_tuple_def Let_def and_255_take_bit
  apply simp
  apply (rule bit_eqI)
  apply (simp add: bit_simps)
  subgoal for n
    by (cases "n < 8"; cases "n < 16"; cases "n < 24"; simp; linarith?)
  done

text \<open>
  C10. For every integer colour, \<open>rgb888_to_bgr888_tuple\<close> returns (blue, green, red)
  with each component in \<open>[0, 255]\<close>; recombined as
  \<^verbatim>\<open>(red << 16) | (green << 8) | blue\<close> the components give the colour modulo \<open>2^24\<close>,
  so they give the colour itself when \<open>0 \<le> rgb_color < 2^24\<close>, and the bits above bit 23
  of a larger colour are discarded.
\<close>

theorem rgb888_to_bgr888_tuple_correct:
  "case rgb888_to_bgr888_tuple c of (b, g, r) \<Rightarrow>
     (0 \<le> b \<and> b \<le> 255 \<and> 0 \<le> g \<and> g \<le> 255 \<and> 0 \<le> r \<and> r \<le> 255) \<and>
     push_bit 16 r OR push_bit 8 g OR b = c mod 2 ^ 24 \<and>
     (0 \<le> c \<and> c < 2 ^ 24 \<longrightarrow> push_bit 16 r OR push_bit 8 g OR b = c)"
  using bgr_components_range[of c] bgr_components_recombine[of c]
  by (auto simp: take_bit_eq_mod split: prod.splits)

theorem rgb888_to_bgr888_tuple_correct_witness:
  "(0::int) \<le> 0x123456 \<and> (0x123456::int) < 2 ^ 24 \<and>
   rgb888_to_bgr888_tuple 0x123456 = (0x56, 0x34, 0x12) \<and>
   push_bit 16 (0x12::int) OR push_bit 8 0x34 OR 0x56 = 0x123456"
  using rgb888_to_bgr888_tuple_correct[of "0x123456"]
  by (simp add: rgb888_to_bgr888_tuple_def)

subsection \<open>Statistics of an acquisition\<close>

lemma set_elems_np_flip: "set (elems (np_flip a ax)) = set (elems a)"
  by (auto simp: elems_def np_flip_def)

lemma sum_list_concat_rev:
  "sum_list (concat (rev xss)) = sum_list (concat (xss :: real list list))"
  by (induction xss) auto

lemma sum_list_concat_map_rev:
  "sum_list (concat (map rev xss)) = sum_list (concat (xss :: real list list))"
  by (induction xss) auto

lemma sum_elems_np_flip: "sum_list (elems (np_flip a ax)) = sum_list (elems (a :: real ndarray))"
  by (simp add: elems_def np_flip_def sum_list_concat_rev sum_list_concat_map_rev)

lemma length_concat_rev: "length (concat (rev xss)) = length (concat xss)"
  by (induction xss) auto

lemma length_concat_map_rev: "length (concat (map rev xss)) = length (concat xss)"
  by (induction xss) auto

lemma length_elems_np_flip: "length (elems (np_flip a ax)) = length (elems a)"
  by (simp add: elems_def np_flip_def length_concat_rev length_concat_map_rev)

lemma elems_map_array: "elems (map_array f a) = map f (elems a)"
  by (simp add: elems_def map_array_def map_concat)

lemma np_min_eq: "elems a \<noteq> [] \<Longrightarrow> np_min a = Inr (Min (set (elems a)))"
  by (cases "elems a") (simp_all add: np_min_def Min.set_eq_fold[symmetric])

lemma np_max_eq: "elems a \<noteq> [] \<Longrightarrow> np_max a = Inr (Max (set (elems a)))"
  by (cases "elems a") (simp_all add: np_max_def Max.set_eq_fold[symmetric])

lemma np_array_elems: "np_array xss = Inr a \<Longrightarrow> elems a = concat xss"
  by (auto simp: np_array_def elems_def split: list.splits if_splits)

lemma np_array_rectangular:
  "xss \<noteq> [] \<Longrightarrow> \<forall>r \<in> set xss. length r = length (hd xss) \<Longrightarrow>
   np_array xss = Inr \<lparr>ncols = length (hd xss), rows = xss\<rparr>"
  by (cases xss) (auto simp: np_array_def list_all_iff)

lemma CameraAMG88xx_config:
  "range_min_c (CameraAMG88xx r af ip) = fst r"
  "range_max_c (CameraAMG88xx r af ip) = snd r"
  "auto_focus (CameraAMG88xx r af ip) = af"
  "interpolate (CameraAMG88xx r af ip) = ip"
  by (simp_all add: CameraAMG88xx_def Let_def)

lemma flipped_clipped_elems:
  assumes "np_array sensor = Inr a"
  shows "set (elems (np_flip (np_flip (np_clip a lo hi) 0) 1)) = set (map (clip lo hi) (concat sensor))"
    and "sum_list (elems (np_flip (np_flip (np_clip a lo hi) 0) 1)) = sum_list (map (clip lo hi) (concat sensor))"
    and "length (elems (np_flip (np_flip (np_clip a lo hi) 0) 1)) = length (map (clip lo hi) (concat sensor))"
  using np_array_elems[OF assms]
  by (simp_all add: set_elems_np_flip sum_elems_np_flip length_elems_np_flip
      np_clip_def elems_map_array del: One_nat_def)

text \<open>The statements of the upscaler change the grid data and nothing else.\<close>

lemma assign_grid_frame: "\<exists>g. fst (assign_grid rs cs rhs cam) = cam\<lparr>grid_data := g\<rparr>"
proof (cases "rhs cam")
  case (Inl e)
  then have "fst (assign_grid rs cs rhs cam) = cam\<lparr>grid_data := grid_data cam\<rparr>"
    by (simp add: assign_grid_def)
  then show ?thesis by blast
next
  case (Inr v)
  show ?thesis
  proof (cases "set_view rs cs v (grid_data cam)")
    case (Inl e)
    with Inr have "fst (assign_grid rs cs rhs cam) = cam\<lparr>grid_data := grid_data cam\<rparr>"
      by (simp add: assign_grid_def)
    then show ?thesis by blast
  next
    case (Inr g)
    with \<open>rhs cam = Inr v\<close> have "fst (assign_grid rs cs rhs cam) = cam\<lparr>grid_data := g\<rparr>"
      by (simp add: assign_grid_def)
    then show ?thesis by blast
  qed
qed

lemma seq_frame:
  assumes "\<And>s. \<exists>g. fst (c1 s) = s\<lparr>grid_data := g\<rparr>"
    and "\<And>s. \<exists>g. fst (c2 s) = s\<lparr>grid_data := g\<rparr>"
  shows "\<exists>g. fst (seq c1 c2 (s :: camera)) = s\<lparr>grid_data := g\<rparr>"
proof -
  obtain g1 where g1: "fst (c1 s) = s\<lparr>grid_data := g1\<rparr>" using assms(1) by blast
  obtain g2 where g2: "fst (c2 (fst (c1 s))) = (fst (c1 s))\<lparr>grid_data := g2\<rparr>"
    using assms(2) by blast
  show ?thesis
  proof (cases "snd (c1 s)")
    case None
    then have "fst (seq c1 c2 s) = fst (c2 (fst (c1 s)))"
      by (cases "c1 s") (simp add: seq_def)
    with g1 g2 have "fst (seq c1 c2 s) = s\<lparr>grid_data := g2\<rparr>" by simp
    then show ?thesis by blast
  next
    case (Some e)
    then have "fst (seq c1 c2 s) = fst (c1 s)"
      by (cases "c1 s") (simp add: seq_def)
    with g1 show ?thesis by auto
  qed
qed

lemma upscale_frame: "\<exists>g. fst (upscale cam) = cam\<lparr>grid_data := g\<rparr>"
  unfolding upscale_def ulab_bilinear_interpolation_def
  by (intro seq_frame assign_grid_frame)

lemma upscale_statistics: "statistics (fst (upscale cam)) = statistics cam"
proof -
  obtain g where "fst (upscale cam) = cam\<lparr>grid_data := g\<rparr>" using upscale_frame by blast
  then show ?thesis by (simp add: statistics_def)
qed

lemma statistics_acquire:
  assumes a: "np_array sensor = Inr a" and ne: "concat sensor \<noteq> []"
  shows "statistics (fst (acquire cam sensor)) =
     (Min (set (map (clip (range_min_c cam) (range_max_c cam)) (concat sensor))),
      sum_list (map (clip (range_min_c cam) (range_max_c cam)) (concat sensor))
        / real (length (concat sensor)),
      Max (set (map (clip (range_min_c cam) (range_max_c cam)) (concat sensor))))"
proof -
  define d where "d = np_flip (np_flip (np_clip a (range_min_c cam) (range_max_c cam)) 0) 1"
  define cs where "cs = map (clip (range_min_c cam) (range_max_c cam)) (concat sensor)"
  note facts = flipped_clipped_elems[OF a, of "range_min_c cam" "range_max_c cam",
      folded d_def cs_def]
  have len: "length cs = length (concat sensor)" by (simp add: cs_def)
  have ne': "elems d \<noteq> []"
    using facts(3) ne len by auto
  have mn: "np_min d = Inr (Min (set cs))"
    using np_min_eq[OF ne'] facts(1) by simp
  have mx: "np_max d = Inr (Max (set cs))"
    using np_max_eq[OF ne'] facts(1) by simp
  have av: "np_mean d = sum_list cs / real (length cs)"
    using facts(2,3) by (simp add: np_mean_def)
  have "statistics (fst (acquire cam sensor)) = (Min (set cs), sum_list cs / real (length cs), Max (set cs))"
  proof (cases "interpolate cam")
    case False
    then show ?thesis
      using a mn mx av
      by (simp add: acquire_def d_def[symmetric] Let_def statistics_def del: One_nat_def)
  next
    case True
    define c5 where "c5 = cam\<lparr>sensor_data := map_array Fin d,
        sensor_min_c := Min (set cs),
        sensor_avg_c := sum_list cs / real (length cs),
        sensor_max_c := Max (set cs),
        sensor_data := (if auto_focus cam
           then np_div (map_array (\<lambda>x. Fin (x - Min (set cs))) d) (Max (set cs) - Min (set cs))
           else np_div (map_array (\<lambda>x. Fin (x - range_min_c cam)) d)
                  (range_max_c cam - range_min_c cam))\<rparr>"
    have "fst (acquire cam sensor) = fst (upscale c5)"
      using a mn mx av True
      by (simp add: acquire_def d_def[symmetric] c5_def Let_def
        split: prod.splits option.splits del: One_nat_def)
    then show ?thesis
      by (simp add: upscale_statistics) (simp add: statistics_def c5_def)
  qed
  then show ?thesis by (simp add: cs_def)
qed

lemma clip_in_range: "lo \<le> hi \<Longrightarrow> lo \<le> clip lo hi x \<and> clip lo hi x \<le> hi"
  by (auto simp: clip_def)

text \<open>
  C7. After an acquisition of a frame with at least one sample (rows of one length), the
  statistics are the minimum, the arithmetic mean and the maximum of the samples clipped
  to the configured range; the clipped samples lie in \<open>[range_min_c, range_max_c]\<close>; the
  statistics are the same with and without autofocus; and for the frame
  \<open>[[10, 20], [30, 40]]\<close> with range \<open>[0, 80]\<close> they are \<open>(10, 25, 40)\<close>.
\<close>

theorem acquire_statistics:
  assumes "\<forall>r \<in> set sensor. length r = length (hd sensor)" and "concat sensor \<noteq> []"
  shows
    "statistics (fst (acquire cam sensor)) =
       (Min (set (map (clip (range_min_c cam) (range_max_c cam)) (concat sensor))),
        sum_list (map (clip (range_min_c cam) (range_max_c cam)) (concat sensor))
          / real (length (concat sensor)),
        Max (set (map (clip (range_min_c cam) (range_max_c cam)) (concat sensor)))) \<and>
     (range_min_c cam \<le> range_max_c cam \<longrightarrow>
        (\<forall>x \<in> set (map (clip (range_min_c cam) (range_max_c cam)) (concat sensor)).
           range_min_c cam \<le> x \<and> x \<le> range_max_c cam)) \<and>
     statistics (fst (acquire (cam\<lparr>auto_focus := True\<rparr>) sensor)) =
       statistics (fst (acquire (cam\<lparr>auto_focus := False\<rparr>) sensor)) \<and>
     (range_min_c cam = 0 \<and> range_max_c cam = 80 \<longrightarrow>
        statistics (fst (acquire cam [[10, 20], [30, 40]])) = (10, 25, 40))"
proof -
  from assms(2) have "sensor \<noteq> []" by auto
  note a = np_array_rectangular[OF this assms(1)]
  have ex: "np_array [[10, 20], [30, 40 :: real]] = Inr \<lparr>ncols = 2, rows = [[10, 20], [30, 40]]\<rparr>"
    by (simp add: np_array_def)
  have 1: "\<And>c. statistics (fst (acquire c sensor)) =
       (Min (set (map (clip (range_min_c c) (range_max_c c)) (concat sensor))),
        sum_list (map (clip (range_min_c c) (range_max_c c)) (concat sensor))
          / real (length (concat sensor)),
        Max (set (map (clip (range_min_c c) (range_max_c c)) (concat sensor))))"
    by (rule statistics_acquire[OF a assms(2)])
  have 2: "range_min_c cam = 0 \<and> range_max_c cam = 80 \<longrightarrow>
        statistics (fst (acquire cam [[10, 20], [30, 40]])) = (10, 25, 40)"
    using statistics_acquire[OF ex, of cam] by (simp add: clip_def)
  have 3: "range_min_c cam \<le> range_max_c cam \<longrightarrow>
        (\<forall>x \<in> set (map (clip (range_min_c cam) (range_max_c cam)) (concat sensor)).
           range_min_c cam \<le> x \<and> x \<le> range_max_c cam)"
    using clip_in_range by auto
  show ?thesis
    using 2 3 by (simp add: 1)
qed

theorem acquire_statistics_witness:
  "statistics (fst (acquire (CameraAMG88xx (0, 80) True False) [[10, 20], [30, 40]])) = (10, 25, 40) \<and>
   statistics (fst (acquire (CameraAMG88xx (0, 80) False False) [[10, 20], [30, 40]])) = (10, 25, 40)"
  using acquire_statistics[of "[[10, 20], [30, 40]]" "CameraAMG88xx (0, 80) True False"]
    acquire_statistics[of "[[10, 20], [30, 40]]" "CameraAMG88xx (0, 80) False False"]
  by (simp add: CameraAMG88xx_config clip_def)

subsection \<open>The bilinear upscaler\<close>

lemma slice_nth_less:
  assumes "valid_slice s n" and "i < slice_len s"
  shows "slice_nth s i < n"
proof -
  obtain a b k where s: "s = (a, b, k)" by (cases s)
  from assms s have k: "0 < k" and b: "b \<le> n" and i: "i < (b - a + k - 1) div k"
    by (auto simp: valid_slice_def slice_len_def)
  from i have "Suc i \<le> (b - a + k - 1) div k" by simp
  then have "Suc i * k \<le> b - a + k - 1"
    using k by (simp add: less_eq_div_iff_mult_less_eq)
  then have "a + i * k < b" using k by (cases k) auto
  with b show ?thesis by (simp add: s slice_nth_def)
qed

lemma slice_pos_less:
  assumes "valid_slice s n" and "in_slice s m"
  shows "slice_pos s m < slice_len s"
proof -
  obtain a b k where s: "s = (a, b, k)" by (cases s)
  from assms s have k: "0 < k" and m: "a \<le> m" "m < b" "(m - a) mod k = 0"
    by (auto simp: valid_slice_def in_slice_def)
  define q where "q = (m - a) div k"
  have qk: "q * k = m - a" using m(3) by (simp add: q_def mod_eq_0_iff_dvd)
  have "Suc q * k \<le> b - a + k - 1" using qk m k by (cases k) auto
  then have "Suc q \<le> (b - a + k - 1) div k"
    using k by (simp add: less_eq_div_iff_mult_less_eq)
  then show ?thesis by (simp add: s slice_pos_def slice_len_def q_def)
qed

lemma valid_py_slice: "0 < k \<Longrightarrow> valid_slice (py_slice a b k n) n"
  by (auto simp: valid_slice_def py_slice_def resolve_def split: option.splits)

lemma is_grid_get_view:
  assumes g: "is_grid g R C f" and sr: "rs R = sr" and sc: "cs C = sc"
    and vr: "valid_slice sr R" and vc: "valid_slice sc C"
  shows "is_grid (get_view rs cs g) (slice_len sr) (slice_len sc)
           (\<lambda>i j. f (slice_nth sr i) (slice_nth sc j))"
  using g slice_nth_less[OF vr] slice_nth_less[OF vc] sr sc
  by (auto simp: is_grid_def get_view_def Let_def nrows_def wf_array_def list_all_iff cell_def)

lemma is_grid_set_view:
  assumes g: "is_grid g R C f" and sr: "rs R = sr" and sc: "cs C = sc"
    and v: "is_grid v (slice_len sr) (slice_len sc) h"
    and vr: "valid_slice sr R" and vc: "valid_slice sc C"
  shows "\<exists>g'. set_view rs cs v g = Inr g' \<and>
     is_grid g' R C (\<lambda>i j. if in_slice sr i \<and> in_slice sc j
                           then h (slice_pos sr i) (slice_pos sc j) else f i j)"
proof -
  let ?g' = "\<lparr>ncols = ncols g,
      rows = map (\<lambda>i. map (\<lambda>j. if in_slice sr i \<and> in_slice sc j
                  then cell v (slice_pos sr i) (slice_pos sc j)
                  else cell g i j) [0..<ncols g]) [0..<nrows g]\<rparr>"
  from g have R: "nrows g = R" and C: "ncols g = C" by (simp_all add: is_grid_def)
  from v have sh: "shape v = (slice_len sr, slice_len sc)"
    by (simp add: is_grid_def shape_def)
  have 1: "set_view rs cs v g = Inr ?g'"
    using sh R C sr sc by (simp add: set_view_def Let_def)
  have 2: "is_grid ?g' R C (\<lambda>i j. if in_slice sr i \<and> in_slice sc j
                           then h (slice_pos sr i) (slice_pos sc j) else f i j)"
    using g v R C slice_pos_less[OF vr] slice_pos_less[OF vc]
    by (auto simp: is_grid_def nrows_def wf_array_def list_all_iff cell_def)
  from 1 2 show ?thesis by blast
qed

lemma is_grid_np_add:
  assumes a: "is_grid a R C f" and b: "is_grid b R C h"
  shows "\<exists>c. np_add a b = Inr c \<and> is_grid c R C (\<lambda>i j. fl_add (f i j) (h i j))"
proof -
  let ?c = "\<lparr>ncols = ncols a, rows = map2 (map2 fl_add) (rows a) (rows b)\<rparr>"
  have 1: "np_add a b = Inr ?c"
    using a b by (simp add: np_add_def is_grid_def shape_def)
  have 2: "is_grid ?c R C (\<lambda>i j. fl_add (f i j) (h i j))"
    using a b
    by (auto simp: is_grid_def nrows_def wf_array_def list_all_iff cell_def set_zip)
  from 1 2 show ?thesis by blast
qed

lemma is_grid_map_array:
  assumes "is_grid a R C f"
  shows "is_grid (map_array u a) R C (\<lambda>i j. u (f i j))"
  using assms
  by (auto simp: is_grid_def map_array_def nrows_def wf_array_def list_all_iff cell_def)

lemma is_grid_cong:
  assumes "is_grid a R C f" and "\<And>i j. i < R \<Longrightarrow> j < C \<Longrightarrow> f i j = h i j"
  shows "is_grid a R C h"
  using assms by (simp add: is_grid_def)

lemma seq_None: "c1 s = (s', None) \<Longrightarrow> seq c1 c2 s = c2 s'"
  by (simp add: seq_def)

lemma assign_grid_step:
  assumes g: "is_grid (grid_data cam) R C f"
    and sr: "rs R = sr" and sc: "cs C = sc"
    and rhs: "rhs cam = Inr v"
    and v: "is_grid v (slice_len sr) (slice_len sc) h"
    and vr: "valid_slice sr R" and vc: "valid_slice sc C"
    and eq: "\<And>i j. i < R \<Longrightarrow> j < C \<Longrightarrow>
          (if in_slice sr i \<and> in_slice sc j
           then h (slice_pos sr i) (slice_pos sc j) else f i j) = f' i j"
  obtains cam' where "assign_grid rs cs rhs cam = (cam', None)"
    and "sensor_data cam' = sensor_data cam"
    and "is_grid (grid_data cam') R C f'"
proof -
  from is_grid_set_view[where rs = rs and cs = cs, OF g sr sc v vr vc] obtain g' where
    1: "set_view rs cs v (grid_data cam) = Inr g'" and
    2: "is_grid g' R C (\<lambda>i j. if in_slice sr i \<and> in_slice sc j
                           then h (slice_pos sr i) (slice_pos sc j) else f i j)"
    by blast
  have 3: "is_grid g' R C f'" by (rule is_grid_cong[OF 2]) (rule eq)
  have "assign_grid rs cs rhs cam = (cam\<lparr>grid_data := g'\<rparr>, None)"
    using rhs 1 by (simp add: assign_grid_def)
  moreover have "sensor_data (cam\<lparr>grid_data := g'\<rparr>) = sensor_data cam" by simp
  moreover have "is_grid (grid_data (cam\<lparr>grid_data := g'\<rparr>)) R C f'" using 3 by simp
  ultimately show thesis by (rule that)
qed

text \<open>The slices of the upscaler, resolved against axes of odd length.\<close>

lemma slice_even: "py_slice None None 2 n = (0, n, 2)"
  and slice_all: "py_slice None None 1 n = (0, n, 1)"
  and slice_odd: "0 < n \<Longrightarrow> py_slice (Some 1) None 2 n = (1, n, 2)"
  and slice_init: "py_slice None (Some (- 1)) 1 n = (0, n - 1, 1)"
  and slice_tail: "0 < n \<Longrightarrow> py_slice (Some 1) None 1 n = (1, n, 1)"
  and slice_even_init: "py_slice None (Some (- 1)) 2 n = (0, n - 1, 2)"
  and slice_even_tail: "py_slice (Some 2) None 2 n = (min n 2, n, 2)"
  by (auto simp: py_slice_def resolve_def)

lemma slice_nth_pos:
  assumes "valid_slice s n" and "in_slice s m"
  shows "slice_nth s (slice_pos s m) = m"
proof -
  obtain a b k where s: "s = (a, b, k)" by (cases s)
  from assms s have "a \<le> m" "(m - a) mod k = 0"
    by (auto simp: in_slice_def)
  then show ?thesis
    by (simp add: s slice_nth_def slice_pos_def mod_eq_0_iff_dvd)
qed

text \<open>\<^verbatim>\<open>g[rs, cs] /= d\<close> and \<^verbatim>\<open>g[rs, cs] += b\<close>.\<close>

lemma assign_grid_div:
  assumes g: "is_grid (grid_data cam) R C f"
    and sr: "rs R = sr" and sc: "cs C = sc"
    and vr: "valid_slice sr R" and vc: "valid_slice sc C"
  obtains cam' where
    "assign_grid rs cs (\<lambda>c. Inr (np_div (get_view rs cs (grid_data c)) d)) cam = (cam', None)"
    and "sensor_data cam' = sensor_data cam"
    and "is_grid (grid_data cam') R C
           (\<lambda>i j. if in_slice sr i \<and> in_slice sc j then fl_div (f i j) d else f i j)"
proof -
  have v: "is_grid (np_div (get_view rs cs (grid_data cam)) d) (slice_len sr) (slice_len sc)
             (\<lambda>p q. fl_div (f (slice_nth sr p) (slice_nth sc q)) d)"
    unfolding np_div_def
    by (rule is_grid_map_array) (rule is_grid_get_view[where rs = rs and cs = cs, OF g sr sc vr vc])
  show thesis
  proof (rule assign_grid_step[where rs = rs and cs = cs
        and rhs = "\<lambda>c. Inr (np_div (get_view rs cs (grid_data c)) d)", OF g sr sc _ v vr vc])
    show "\<And>cam'. assign_grid rs cs (\<lambda>c. Inr (np_div (get_view rs cs (grid_data c)) d)) cam
            = (cam', None) \<Longrightarrow> sensor_data cam' = sensor_data cam \<Longrightarrow>
          is_grid (grid_data cam') R C
            (\<lambda>i j. if in_slice sr i \<and> in_slice sc j then fl_div (f i j) d else f i j) \<Longrightarrow> thesis"
      by (rule that)
  qed (simp_all add: slice_nth_pos[OF vr] slice_nth_pos[OF vc])
qed

lemma assign_grid_add:
  assumes g: "is_grid (grid_data cam) R C f"
    and sr: "rs R = sr" and sc: "cs C = sc"
    and vr: "valid_slice sr R" and vc: "valid_slice sc C"
    and b: "is_grid (b cam) (slice_len sr) (slice_len sc) h"
  obtains cam' where
    "assign_grid rs cs (\<lambda>c. np_add (get_view rs cs (grid_data c)) (b c)) cam = (cam', None)"
    and "sensor_data cam' = sensor_data cam"
    and "is_grid (grid_data cam') R C
           (\<lambda>i j. if in_slice sr i \<and> in_slice sc j
                  then fl_add (f i j) (h (slice_pos sr i) (slice_pos sc j)) else f i j)"
proof -
  from is_grid_np_add[OF is_grid_get_view[where rs = rs and cs = cs, OF g sr sc vr vc] b]
  obtain v where rhs: "np_add (get_view rs cs (grid_data cam)) (b cam) = Inr v"
    and v: "is_grid v (slice_len sr) (slice_len sc)
              (\<lambda>p q. fl_add (f (slice_nth sr p) (slice_nth sc q)) (h p q))"
    by blast
  show thesis
  proof (rule assign_grid_step[where rs = rs and cs = cs
        and rhs = "\<lambda>c. np_add (get_view rs cs (grid_data c)) (b c)", OF g sr sc rhs v vr vc])
    show "\<And>cam'. assign_grid rs cs (\<lambda>c. np_add (get_view rs cs (grid_data c)) (b c)) cam
            = (cam', None) \<Longrightarrow> sensor_data cam' = sensor_data cam \<Longrightarrow>
          is_grid (grid_data cam') R C
            (\<lambda>i j. if in_slice sr i \<and> in_slice sc j
                  then fl_add (f i j) (h (slice_pos sr i) (slice_pos sc j)) else f i j) \<Longrightarrow> thesis"
      by (rule that)
  qed (simp_all add: slice_nth_pos[OF vr] slice_nth_pos[OF vc])
qed

lemma assign_grid_copy:
  assumes g: "is_grid (grid_data cam) R C f"
    and sr: "rs R = sr" and sc: "cs C = sc"
    and vr: "valid_slice sr R" and vc: "valid_slice sc C"
    and b: "is_grid (b cam) (slice_len sr) (slice_len sc) h"
  obtains cam' where
    "assign_grid rs cs (\<lambda>c. Inr (b c)) cam = (cam', None)"
    and "sensor_data cam' = sensor_data cam"
    and "is_grid (grid_data cam') R C
           (\<lambda>i j. if in_slice sr i \<and> in_slice sc j
                  then h (slice_pos sr i) (slice_pos sc j) else f i j)"
proof (rule assign_grid_step[where rs = rs and cs = cs
        and rhs = "\<lambda>c. Inr (b c)", OF g sr sc _ b vr vc])
  show "\<And>cam'. assign_grid rs cs (\<lambda>c. Inr (b c)) cam = (cam', None) \<Longrightarrow>
          sensor_data cam' = sensor_data cam \<Longrightarrow>
          is_grid (grid_data cam') R C
            (\<lambda>i j. if in_slice sr i \<and> in_slice sc j
                  then h (slice_pos sr i) (slice_pos sc j) else f i j) \<Longrightarrow> thesis"
    by (rule that)
qed simp_all


lemma in_slice_parity:
  "i < n \<Longrightarrow> in_slice (0, n, 2) i = even i"
  "i < n \<Longrightarrow> in_slice (Suc 0, n, 2) i = odd i"
  "i < n \<Longrightarrow> in_slice (0, n, Suc 0) i"
  by (simp_all add: in_slice_def) presburger+

lemma slice_pos_parity:
  "slice_pos (0, n, 2) i = i div 2"
  "odd i \<Longrightarrow> slice_pos (Suc 0, n, 2) i = i div 2"
  "slice_pos (0, n, Suc 0) i = i"
  by (simp_all add: slice_pos_def) presburger+

lemma slice_nth_simps:
  "slice_nth (0, n, 1) p = p"
  "slice_nth (1, n, 1) p = p + 1"
  "slice_nth (0, n, 2) p = 2 * p"
  "slice_nth (1, n, 2) p = 2 * p + 1"
  by (simp_all add: slice_nth_def)

text \<open>
  The upscaler on a source of \<open>W\<close> by \<open>H\<close> cells and a grid of \<open>2W - 1\<close> by \<open>2H - 1\<close>
  cells: no statement raises, and every cell of the new grid is a function of the source
  alone: the source cell at even positions, the mean of the two vertical neighbours in an
  odd row, and in an odd column the mean of the two horizontal neighbours as they are
  after the vertical pass.
\<close>

lemma upscale_is_grid:
  assumes R: "R + 1 = 2 * W" and C: "C + 1 = 2 * H"
    and s: "is_grid (sensor_data cam) W H fs"
    and g: "is_grid (grid_data cam) R C fg"
  obtains cam' where "upscale cam = (cam', None)"
    and "sensor_data cam' = sensor_data cam"
    and "is_grid (grid_data cam') R C
      (\<lambda>i j. if odd j
         then fl_div (fl_add
                (if odd i then fl_div (fl_add (fs (i div 2) (j div 2)) (fs (i div 2 + 1) (j div 2))) 2
                 else fs (i div 2) (j div 2))
                (if odd i then fl_div (fl_add (fs (i div 2) (j div 2 + 1)) (fs (i div 2 + 1) (j div 2 + 1))) 2
                 else fs (i div 2) (j div 2 + 1))) 2
         else if odd i then fl_div (fl_add (fs (i div 2) (j div 2)) (fs (i div 2 + 1) (j div 2))) 2
         else fs (i div 2) (j div 2))"
proof -
  from R obtain w where w: "W = Suc w" "R = 2 * w + 1" by (cases W) auto
  from C obtain h where h: "H = Suc h" "C = 2 * h + 1" by (cases H) auto
  have R0: "0 < R" and W0: "0 < W" and C0: "0 < C" by (simp_all add: w h)
  have len:
    "slice_len (0, R, 2) = W" "slice_len (0, C, 2) = H"
    "slice_len (1, R, 2) = W - 1" "slice_len (0, W - 1, 1) = W - 1" "slice_len (1, W, 1) = W - 1"
    "slice_len (0, H, 1) = H" "slice_len (0, R, 1) = R"
    "slice_len (1, C, 2) = H - 1" "slice_len (0, C - 1, 2) = H - 1"
    by (simp_all add: slice_len_def w h)
  have len_tail: "slice_len (min C 2, C, 2) = H - 1"
    by (cases h) (simp_all add: slice_len_def w h)
  have valid:
    "valid_slice (0, R, 2) R" "valid_slice (0, C, 2) C" "valid_slice (1, R, 2) R"
    "valid_slice (0, W - 1, 1) W" "valid_slice (1, W, 1) W" "valid_slice (0, H, 1) H"
    "valid_slice (0, R, 1) R" "valid_slice (1, C, 2) C" "valid_slice (0, C - 1, 2) C"
    "valid_slice (min C 2, C, 2) C"
    by (simp_all add: valid_slice_def)
  have nth_tail: "\<And>q. slice_nth (min C 2, C, 2) q = min C 2 + 2 * q"
    by (simp add: slice_nth_def)
  \<comment> \<open>\<^verbatim>\<open>grid[::2, ::2] = sensor\<close>\<close>
  define f0 where "f0 = (\<lambda>i j. if even i \<and> even j then fs (i div 2) (j div 2) else fg i j)"
  obtain c0 where c0: "assign_grid (py_slice None None 2) (py_slice None None 2)
        (\<lambda>c. Inr (sensor_data c)) cam = (c0, None)"
    and s0: "sensor_data c0 = sensor_data cam" and g0: "is_grid (grid_data c0) R C f0"
  proof (rule assign_grid_copy[where rs = "py_slice None None 2" and cs = "py_slice None None 2"
        and b = sensor_data and h = fs, OF g slice_even slice_even valid(1,2)])
    show "is_grid (sensor_data cam) (slice_len (0, R, 2)) (slice_len (0, C, 2)) fs"
      using s by (simp only: len)
    fix cam' assume a: "assign_grid (py_slice None None 2) (py_slice None None 2)
        (\<lambda>c. Inr (sensor_data c)) cam = (cam', None)" "sensor_data cam' = sensor_data cam"
      "is_grid (grid_data cam') R C (\<lambda>i j. if in_slice (0, R, 2) i \<and> in_slice (0, C, 2) j
          then fs (slice_pos (0, R, 2) i) (slice_pos (0, C, 2) j) else fg i j)"
    from a(3) have n: "is_grid (grid_data cam') R C f0"
      by (rule is_grid_cong) (simp add: f0_def in_slice_parity slice_pos_parity)
    show thesis by (rule that[OF a(1) _ n]) (simp add: a(2) )
  qed
  \<comment> \<open>\<^verbatim>\<open>grid[1::2, ::2] = sensor[:-1, :]\<close>\<close>
  define f1 where "f1 = (\<lambda>i j. if odd i \<and> even j then fs (i div 2) (j div 2) else f0 i j)"
  obtain c1 where c1: "assign_grid (py_slice (Some 1) None 2) (py_slice None None 2)
        (\<lambda>c. Inr (get_view (py_slice None (Some (- 1)) 1) (py_slice None None 1)
                         (sensor_data c))) c0 = (c1, None)"
    and s1: "sensor_data c1 = sensor_data cam" and g1: "is_grid (grid_data c1) R C f1"
  proof (rule assign_grid_copy[where rs = "py_slice (Some 1) None 2" and cs = "py_slice None None 2"
        and b = "\<lambda>c. get_view (py_slice None (Some (- 1)) 1) (py_slice None None 1) (sensor_data c)"
        and h = fs, OF g0 slice_odd[OF R0] slice_even valid(3,2)])
    show "is_grid (get_view (py_slice None (Some (- 1)) 1) (py_slice None None 1) (sensor_data c0))
        (slice_len (1, R, 2)) (slice_len (0, C, 2)) fs"
      using is_grid_get_view[where rs = "py_slice None (Some (- 1)) 1" and cs = "py_slice None None 1",
          OF s slice_init slice_all valid(4,6)]
      by (simp only: len s0 slice_nth_simps)
    fix cam' assume a: "assign_grid (py_slice (Some 1) None 2) (py_slice None None 2)
        (\<lambda>c. Inr (get_view (py_slice None (Some (- 1)) 1) (py_slice None None 1)
                         (sensor_data c))) c0 = (cam', None)" "sensor_data cam' = sensor_data c0"
      "is_grid (grid_data cam') R C (\<lambda>i j. if in_slice (1, R, 2) i \<and> in_slice (0, C, 2) j
          then fs (slice_pos (1, R, 2) i) (slice_pos (0, C, 2) j) else f0 i j)"
    from a(3) have n: "is_grid (grid_data cam') R C f1"
      by (rule is_grid_cong) (simp add: f1_def in_slice_parity slice_pos_parity)
    show thesis by (rule that[OF a(1) _ n]) (simp add: a(2) s0)
  qed
  \<comment> \<open>\<^verbatim>\<open>grid[1::2, ::2] += sensor[1:, :]\<close>\<close>
  define f2 where "f2 = (\<lambda>i j. if odd i \<and> even j
      then fl_add (f1 i j) (fs (i div 2 + 1) (j div 2)) else f1 i j)"
  obtain c2 where c2: "assign_grid (py_slice (Some 1) None 2) (py_slice None None 2)
        (\<lambda>c. np_add (get_view (py_slice (Some 1) None 2) (py_slice None None 2) (grid_data c))
                     (get_view (py_slice (Some 1) None 1) (py_slice None None 1)
                            (sensor_data c))) c1 = (c2, None)"
    and s2: "sensor_data c2 = sensor_data cam" and g2: "is_grid (grid_data c2) R C f2"
  proof (rule assign_grid_add[where rs = "py_slice (Some 1) None 2" and cs = "py_slice None None 2"
        and b = "\<lambda>c. get_view (py_slice (Some 1) None 1) (py_slice None None 1) (sensor_data c)"
        and h = "\<lambda>p q. fs (p + 1) q", OF g1 slice_odd[OF R0] slice_even valid(3,2)])
    show "is_grid (get_view (py_slice (Some 1) None 1) (py_slice None None 1) (sensor_data c1))
        (slice_len (1, R, 2)) (slice_len (0, C, 2)) (\<lambda>p q. fs (p + 1) q)"
      using is_grid_get_view[where rs = "py_slice (Some 1) None 1" and cs = "py_slice None None 1",
          OF s slice_tail[OF W0] slice_all valid(5,6)]
      by (simp only: len s1 slice_nth_simps)
    fix cam' assume a: "assign_grid (py_slice (Some 1) None 2) (py_slice None None 2)
        (\<lambda>c. np_add (get_view (py_slice (Some 1) None 2) (py_slice None None 2) (grid_data c))
                     (get_view (py_slice (Some 1) None 1) (py_slice None None 1)
                            (sensor_data c))) c1 = (cam', None)" "sensor_data cam' = sensor_data c1"
      "is_grid (grid_data cam') R C (\<lambda>i j. if in_slice (1, R, 2) i \<and> in_slice (0, C, 2) j
          then fl_add (f1 i j) (fs (slice_pos (1, R, 2) i + 1) (slice_pos (0, C, 2) j)) else f1 i j)"
    from a(3) have n: "is_grid (grid_data cam') R C f2"
      by (rule is_grid_cong) (simp add: f2_def in_slice_parity slice_pos_parity)
    show thesis by (rule that[OF a(1) _ n]) (simp add: a(2) s1)
  qed
  \<comment> \<open>\<^verbatim>\<open>grid[1::2, ::2] /= 2\<close>\<close>
  define f3 where "f3 = (\<lambda>i j. if odd i \<and> even j then fl_div (f2 i j) 2 else f2 i j)"
  obtain c3 where c3: "assign_grid (py_slice (Some 1) None 2) (py_slice None None 2)
        (\<lambda>c. Inr (np_div (get_view (py_slice (Some 1) None 2) (py_slice None None 2)
                                 (grid_data c)) 2)) c2 = (c3, None)"
    and s3: "sensor_data c3 = sensor_data cam" and g3: "is_grid (grid_data c3) R C f3"
  proof (rule assign_grid_div[where rs = "py_slice (Some 1) None 2" and cs = "py_slice None None 2"
        and d = 2, OF g2 slice_odd[OF R0] slice_even valid(3,2)])
    fix cam' assume a: "assign_grid (py_slice (Some 1) None 2) (py_slice None None 2)
        (\<lambda>c. Inr (np_div (get_view (py_slice (Some 1) None 2) (py_slice None None 2)
                                 (grid_data c)) 2)) c2 = (cam', None)"
      "sensor_data cam' = sensor_data c2"
      "is_grid (grid_data cam') R C (\<lambda>i j. if in_slice (1, R, 2) i \<and> in_slice (0, C, 2) j
          then fl_div (f2 i j) 2 else f2 i j)"
    from a(3) have n: "is_grid (grid_data cam') R C f3"
      by (rule is_grid_cong) (simp add: f3_def in_slice_parity)
    show thesis by (rule that[OF a(1) _ n]) (simp add: a(2) s2)
  qed
  \<comment> \<open>\<^verbatim>\<open>grid[::, 1::2] = grid[::, :-1:2]\<close>\<close>
  define f4 where "f4 = (\<lambda>i j. if odd j then f3 i (j - 1) else f3 i j)"
  obtain c4 where c4: "assign_grid (py_slice None None 1) (py_slice (Some 1) None 2)
        (\<lambda>c. Inr (get_view (py_slice None None 1) (py_slice None (Some (- 1)) 2)
                         (grid_data c))) c3 = (c4, None)"
    and s4: "sensor_data c4 = sensor_data cam" and g4: "is_grid (grid_data c4) R C f4"
  proof (rule assign_grid_copy[where rs = "py_slice None None 1" and cs = "py_slice (Some 1) None 2"
        and b = "\<lambda>c. get_view (py_slice None None 1) (py_slice None (Some (- 1)) 2) (grid_data c)"
        and h = "\<lambda>p q. f3 p (2 * q)", OF g3 slice_all slice_odd[OF C0] valid(7,8)])
    show "is_grid (get_view (py_slice None None 1) (py_slice None (Some (- 1)) 2) (grid_data c3))
        (slice_len (0, R, 1)) (slice_len (1, C, 2)) (\<lambda>p q. f3 p (2 * q))"
      using is_grid_get_view[where rs = "py_slice None None 1" and cs = "py_slice None (Some (- 1)) 2",
          OF g3 slice_all slice_even_init valid(7,9)]
      by (simp only: len slice_nth_simps)
    fix cam' assume a: "assign_grid (py_slice None None 1) (py_slice (Some 1) None 2)
        (\<lambda>c. Inr (get_view (py_slice None None 1) (py_slice None (Some (- 1)) 2)
                         (grid_data c))) c3 = (cam', None)" "sensor_data cam' = sensor_data c3"
      "is_grid (grid_data cam') R C (\<lambda>i j. if in_slice (0, R, 1) i \<and> in_slice (1, C, 2) j
          then f3 (slice_pos (0, R, 1) i) (2 * slice_pos (1, C, 2) j) else f3 i j)"
    from a(3) have n: "is_grid (grid_data cam') R C f4"
      by (rule is_grid_cong) (auto simp: f4_def in_slice_parity slice_pos_parity elim!: oddE)
    show thesis by (rule that[OF a(1) _ n]) (simp add: a(2) s3)
  qed
  \<comment> \<open>\<^verbatim>\<open>grid[::, 1::2] += grid[::, 2::2]\<close>\<close>
  define f5 where "f5 = (\<lambda>i j. if odd j then fl_add (f4 i j) (f4 i (j + 1)) else f4 i j)"
  obtain c5 where c5: "assign_grid (py_slice None None 1) (py_slice (Some 1) None 2)
        (\<lambda>c. np_add (get_view (py_slice None None 1) (py_slice (Some 1) None 2) (grid_data c))
                     (get_view (py_slice None None 1) (py_slice (Some 2) None 2)
                            (grid_data c))) c4 = (c5, None)"
    and s5: "sensor_data c5 = sensor_data cam" and g5: "is_grid (grid_data c5) R C f5"
  proof (rule assign_grid_add[where rs = "py_slice None None 1" and cs = "py_slice (Some 1) None 2"
        and b = "\<lambda>c. get_view (py_slice None None 1) (py_slice (Some 2) None 2) (grid_data c)"
        and h = "\<lambda>p q. f4 p (min C 2 + 2 * q)", OF g4 slice_all slice_odd[OF C0] valid(7,8)])
    show "is_grid (get_view (py_slice None None 1) (py_slice (Some 2) None 2) (grid_data c4))
        (slice_len (0, R, 1)) (slice_len (1, C, 2)) (\<lambda>p q. f4 p (min C 2 + 2 * q))"
      using is_grid_get_view[where rs = "py_slice None None 1" and cs = "py_slice (Some 2) None 2",
          OF g4 slice_all slice_even_tail valid(7,10)]
      by (simp only: len len_tail slice_nth_simps nth_tail)
    fix cam' assume a: "assign_grid (py_slice None None 1) (py_slice (Some 1) None 2)
        (\<lambda>c. np_add (get_view (py_slice None None 1) (py_slice (Some 1) None 2) (grid_data c))
                     (get_view (py_slice None None 1) (py_slice (Some 2) None 2)
                            (grid_data c))) c4 = (cam', None)" "sensor_data cam' = sensor_data c4"
      "is_grid (grid_data cam') R C (\<lambda>i j. if in_slice (0, R, 1) i \<and> in_slice (1, C, 2) j
          then fl_add (f4 i j) (f4 (slice_pos (0, R, 1) i) (min C 2 + 2 * slice_pos (1, C, 2) j))
          else f4 i j)"
    from a(3) have n: "is_grid (grid_data cam') R C f5"
      by (rule is_grid_cong) (auto simp: f5_def in_slice_parity slice_pos_parity elim!: oddE)
    show thesis by (rule that[OF a(1) _ n]) (simp add: a(2) s4)
  qed
  \<comment> \<open>\<^verbatim>\<open>grid[::, 1::2] /= 2\<close>\<close>
  define f6 where "f6 = (\<lambda>i j. if odd j then fl_div (f5 i j) 2 else f5 i j)"
  obtain c6 where c6: "assign_grid (py_slice None None 1) (py_slice (Some 1) None 2)
        (\<lambda>c. Inr (np_div (get_view (py_slice None None 1) (py_slice (Some 1) None 2)
                                 (grid_data c)) 2)) c5 = (c6, None)"
    and s6: "sensor_data c6 = sensor_data cam" and g6: "is_grid (grid_data c6) R C f6"
  proof (rule assign_grid_div[where rs = "py_slice None None 1" and cs = "py_slice (Some 1) None 2"
        and d = 2, OF g5 slice_all slice_odd[OF C0] valid(7,8)])
    fix cam' assume a: "assign_grid (py_slice None None 1) (py_slice (Some 1) None 2)
        (\<lambda>c. Inr (np_div (get_view (py_slice None None 1) (py_slice (Some 1) None 2)
                                 (grid_data c)) 2)) c5 = (cam', None)"
      "sensor_data cam' = sensor_data c5"
      "is_grid (grid_data cam') R C (\<lambda>i j. if in_slice (0, R, 1) i \<and> in_slice (1, C, 2) j
          then fl_div (f5 i j) 2 else f5 i j)"
    from a(3) have n: "is_grid (grid_data cam') R C f6"
      by (rule is_grid_cong) (simp add: f6_def in_slice_parity)
    show thesis by (rule that[OF a(1) _ n]) (simp add: a(2) s5)
  qed
  have run: "upscale cam = (c6, None)"
    unfolding upscale_def ulab_bilinear_interpolation_def
    by (simp add: seq_def c0 c1 c2 c3 c4 c5 c6 del: One_nat_def)
  have fin: "is_grid (grid_data c6) R C
      (\<lambda>i j. if odd j
         then fl_div (fl_add
                (if odd i then fl_div (fl_add (fs (i div 2) (j div 2)) (fs (i div 2 + 1) (j div 2))) 2
                 else fs (i div 2) (j div 2))
                (if odd i then fl_div (fl_add (fs (i div 2) (j div 2 + 1)) (fs (i div 2 + 1) (j div 2 + 1))) 2
                 else fs (i div 2) (j div 2 + 1))) 2
         else if odd i then fl_div (fl_add (fs (i div 2) (j div 2)) (fs (i div 2 + 1) (j div 2))) 2
         else fs (i div 2) (j div 2))"
    by (rule is_grid_cong[OF g6])
       (auto simp: f6_def f5_def f4_def f3_def f2_def f1_def f0_def elim!: oddE)
  from run s6 fin show thesis by (rule that)
qed


lemma wf_array_is_grid: "wf_array a \<Longrightarrow> is_grid a (nrows a) (ncols a) (cell a)"
  by (simp add: is_grid_def)

lemma fl_mean_Fin: "fl_div (fl_add (Fin a) (Fin b)) 2 = Fin ((a + b) / 2)"
  by simp




subsection \<open>Autofocus on a uniform scene\<close>

lemma acquire_unfold:
  assumes a: "np_array sensor = Inr a" and ne: "concat sensor \<noteq> []"
  shows "acquire cam sensor =
    (let d = np_flip (np_flip (np_clip a (range_min_c cam) (range_max_c cam)) 0) 1;
         cs = map (clip (range_min_c cam) (range_max_c cam)) (concat sensor);
         cam5 = cam\<lparr>sensor_min_c := Min (set cs),
           sensor_avg_c := sum_list cs / real (length cs),
           sensor_max_c := Max (set cs),
           sensor_data :=
             (if auto_focus cam
              then np_div (map_array (\<lambda>x. Fin (x - Min (set cs))) d) (Max (set cs) - Min (set cs))
              else np_div (map_array (\<lambda>x. Fin (x - range_min_c cam)) d)
                     (range_max_c cam - range_min_c cam))\<rparr>
     in if interpolate cam
        then (case upscale cam5 of
                (cam6, Some e) \<Rightarrow> (cam6, Inl e)
              | (cam6, None) \<Rightarrow> (cam6, Inr (grid_data cam6)))
        else (cam5, Inr (sensor_data cam5)))"
proof -
  define d where "d = np_flip (np_flip (np_clip a (range_min_c cam) (range_max_c cam)) 0) 1"
  define cs where "cs = map (clip (range_min_c cam) (range_max_c cam)) (concat sensor)"
  note facts = flipped_clipped_elems[OF a, of "range_min_c cam" "range_max_c cam",
      folded d_def cs_def]
  have len: "length cs = length (concat sensor)" by (simp add: cs_def)
  have ne': "elems d \<noteq> []"
    using facts(3) ne len by auto
  have mn: "np_min d = Inr (Min (set cs))"
    using np_min_eq[OF ne'] facts(1) by simp
  have mx: "np_max d = Inr (Max (set cs))"
    using np_max_eq[OF ne'] facts(1) by simp
  have av: "np_mean d = sum_list cs / real (length cs)"
    using facts(2,3) by (simp add: np_mean_def)
  show ?thesis
    unfolding d_def[symmetric] cs_def[symmetric]
    using a mn mx av
    by (simp add: acquire_def d_def[symmetric] Let_def del: One_nat_def)
qed

lemma rows_replicateI:
  assumes "\<And>r. r \<in> set xss \<Longrightarrow> length r = C \<and> (\<forall>x \<in> set r. x = v)"
  shows "xss = replicate (length xss) (replicate C v)"
proof (rule replicate_eqI)
  fix r assume "r \<in> set xss"
  with assms have "length r = C" "\<And>x. x \<in> set r \<Longrightarrow> x = v" by auto
  then show "r = replicate C v" by (intro replicate_eqI) auto
qed simp

lemma is_grid_const_rows:
  assumes "is_grid g R C (\<lambda>i j. v)"
  shows "g = \<lparr>ncols = C, rows = replicate R (replicate C v)\<rparr>"
proof -
  from assms have n: "length (rows g) = R" and c: "ncols g = C"
    and wf: "\<And>r. r \<in> set (rows g) \<Longrightarrow> length r = C"
    and cells: "\<And>i j. i < R \<Longrightarrow> j < C \<Longrightarrow> rows g ! i ! j = v"
    by (auto simp: is_grid_def nrows_def wf_array_def list_all_iff cell_def)
  have "rows g = replicate (length (rows g)) (replicate C v)"
  proof (rule rows_replicateI, intro conjI ballI)
    fix r x assume r: "r \<in> set (rows g)"
    show "length r = C" using wf[OF r] .
    assume x: "x \<in> set r"
    from r obtain i where i: "i < R" "rows g ! i = r" using n by (auto simp: in_set_conv_nth)
    from x obtain j where j: "j < length r" "r ! j = x" by (auto simp: in_set_conv_nth)
    with cells[of i j] i wf[OF r] show "x = v" by simp
  qed
  with n c show ?thesis by (cases g) simp
qed

lemma uniform_normalised:
  assumes rect: "\<forall>r \<in> set sensor. length r = H"
    and uni: "\<forall>x \<in> set (concat sensor). clip lo hi x = v"
  shows "np_div (map_array (\<lambda>x. Fin (x - v))
            (np_flip (np_flip (np_clip \<lparr>ncols = H, rows = sensor\<rparr> lo hi) 0) 1)) (v - v)
         = \<lparr>ncols = H, rows = replicate (length sensor) (replicate H NaN)\<rparr>"
proof -
  let ?rows = "map (map (\<lambda>x. fl_div x 0))
      (map (map (\<lambda>x. Fin (x - v))) (map rev (rev (map (map (clip lo hi)) sensor))))"
  have "?rows = replicate (length ?rows) (replicate H NaN)"
  proof (rule rows_replicateI)
    fix r assume "r \<in> set ?rows"
    then obtain r0 where r0: "r0 \<in> set sensor"
      and r: "r = map (\<lambda>x. fl_div x 0) (map (\<lambda>x. Fin (x - v)) (rev (map (clip lo hi) r0)))"
      by auto
    have "\<forall>x \<in> set r0. clip lo hi x = v" using uni r0 by auto
    then show "length r = H \<and> (\<forall>x \<in> set r. x = NaN)"
      using rect r0 by (auto simp: r)
  qed
  then show ?thesis
    by (simp add: np_div_def map_array_def np_flip_def np_clip_def del: One_nat_def)
qed


lemma is_grid_replicate:
  "is_grid \<lparr>ncols = C, rows = replicate R (replicate C v)\<rparr> R C (\<lambda>i j. v)"
  by (simp add: is_grid_def nrows_def wf_array_def list_all_iff cell_def)

lemma acquire_uniform:
  assumes ne: "concat sensor \<noteq> []"
    and rect: "\<forall>r \<in> set sensor. length r = length (hd sensor)"
    and uni: "\<forall>x \<in> set (concat sensor). clip (range_min_c cam) (range_max_c cam) x = v"
    and af: "auto_focus cam"
  shows "statistics (fst (acquire cam sensor)) = (v, v, v)"
    and "\<not> interpolate cam \<Longrightarrow>
      snd (acquire cam sensor) =
        Inr \<lparr>ncols = length (hd sensor),
             rows = replicate (length sensor) (replicate (length (hd sensor)) NaN)\<rparr>"
    and "interpolate cam \<Longrightarrow> wf_array (grid_data cam) \<Longrightarrow>
      shape (grid_data cam) = (2 * length sensor - 1, 2 * length (hd sensor) - 1) \<Longrightarrow>
      snd (acquire cam sensor) =
        Inr \<lparr>ncols = 2 * length (hd sensor) - 1,
             rows = replicate (2 * length sensor - 1)
                      (replicate (2 * length (hd sensor) - 1) NaN)\<rparr>"
proof -
  define W where "W = length sensor"
  define H where "H = length (hd sensor)"
  define cs where "cs = map (clip (range_min_c cam) (range_max_c cam)) (concat sensor)"
  from ne have sne: "sensor \<noteq> []" by auto
  from ne obtain r where "r \<in> set sensor" "r \<noteq> []" by auto
  with rect have H0: "0 < H" by (auto simp: H_def)
  from sne have W0: "0 < W" by (simp add: W_def)
  have a: "np_array sensor = Inr \<lparr>ncols = H, rows = sensor\<rparr>"
    unfolding H_def by (rule np_array_rectangular[OF sne rect])
  have csne: "cs \<noteq> []" using ne by (simp add: cs_def)
  have "\<forall>x \<in> set cs. x = v" using uni by (auto simp: cs_def)
  with csne have "set cs = {v}" by (cases cs) auto
  then have mm: "Min (set cs) = v" "Max (set cs) = v" by simp_all
  have avg: "sum_list cs / real (length cs) = v"
  proof -
    have "cs = replicate (length cs) v"
      by (rule replicate_eqI) (use \<open>set cs = {v}\<close> in auto)
    then have "sum_list cs = real (length cs) * v"
      by (metis sum_list_replicate mult.commute of_nat_mult semiring_1_class.of_nat_simps(2) mult_of_nat_commute)
    moreover have "length cs \<noteq> 0" using ne by (simp add: cs_def)
    ultimately show ?thesis by simp
  qed
  define N where "N = \<lparr>ncols = H, rows = replicate W (replicate H NaN)\<rparr>"
  have norm: "np_div (map_array (\<lambda>x. Fin (x - v))
            (np_flip (np_flip (np_clip \<lparr>ncols = H, rows = sensor\<rparr>
               (range_min_c cam) (range_max_c cam)) 0) 1)) (v - v) = N"
    unfolding N_def W_def
    by (rule uniform_normalised) (use rect uni in \<open>auto simp: H_def\<close>)
  have norm0: "np_div (map_array (\<lambda>x. Fin (x - v))
            (np_flip (np_flip (np_clip \<lparr>ncols = H, rows = sensor\<rparr>
               (range_min_c cam) (range_max_c cam)) 0) 1)) 0 = N"
    using norm by (simp del: One_nat_def)
  define cam5 where "cam5 = cam\<lparr>sensor_min_c := v, sensor_avg_c := v, sensor_max_c := v,
      sensor_data := N\<rparr>"
  have acq: "acquire cam sensor =
      (if interpolate cam
        then (case upscale cam5 of
                (cam6, Some e) \<Rightarrow> (cam6, Inl e)
              | (cam6, None) \<Rightarrow> (cam6, Inr (grid_data cam6)))
        else (cam5, Inr (sensor_data cam5)))"
    unfolding acquire_unfold[OF a ne]
    by (simp add: Let_def cs_def[symmetric] mm avg af norm0 cam5_def del: One_nat_def)
  show "statistics (fst (acquire cam sensor)) = (v, v, v)"
  proof (cases "interpolate cam")
    case False
    then show ?thesis by (simp add: acq cam5_def statistics_def)
  next
    case True
    then have "fst (acquire cam sensor) = fst (upscale cam5)"
      by (simp add: acq split: prod.splits option.splits)
    then show ?thesis by (simp add: upscale_statistics) (simp add: cam5_def statistics_def)
  qed
  show "snd (acquire cam sensor) = Inr \<lparr>ncols = length (hd sensor),
             rows = replicate (length sensor) (replicate (length (hd sensor)) NaN)\<rparr>"
    if "\<not> interpolate cam"
    using that by (simp add: acq cam5_def N_def W_def H_def)
  show "snd (acquire cam sensor) =
        Inr \<lparr>ncols = 2 * length (hd sensor) - 1,
             rows = replicate (2 * length sensor - 1)
                      (replicate (2 * length (hd sensor) - 1) NaN)\<rparr>"
    if ip: "interpolate cam" and wf: "wf_array (grid_data cam)"
      and sh: "shape (grid_data cam) = (2 * length sensor - 1, 2 * length (hd sensor) - 1)"
  proof -
    define R where "R = 2 * W - 1"
    define C where "C = 2 * H - 1"
    have R: "R + 1 = 2 * W" and C: "C + 1 = 2 * H"
      using W0 H0 by (simp_all add: R_def C_def)
    have s: "is_grid (sensor_data cam5) W H (\<lambda>i j. NaN)"
      by (simp add: cam5_def N_def is_grid_replicate)
    have g: "is_grid (grid_data cam5) R C (cell (grid_data cam))"
      using wf_array_is_grid[OF wf] sh
      by (simp add: shape_def R_def C_def W_def H_def cam5_def)
    from upscale_is_grid[OF R C s g] obtain cam' where run: "upscale cam5 = (cam', None)"
      and g': "is_grid (grid_data cam') R C
        (\<lambda>i j. if odd j
         then fl_div (fl_add
                (if odd i then fl_div (fl_add NaN NaN) 2 else NaN)
                (if odd i then fl_div (fl_add NaN NaN) 2 else NaN)) 2
         else if odd i then fl_div (fl_add NaN NaN) 2 else NaN)"
      by blast
    have "is_grid (grid_data cam') R C (\<lambda>i j. NaN)"
      by (rule is_grid_cong[OF g']) simp
    then have "grid_data cam' = \<lparr>ncols = C, rows = replicate R (replicate C NaN)\<rparr>"
      by (rule is_grid_const_rows)
    then show ?thesis
      using ip by (simp add: acq run R_def C_def W_def H_def)
  qed
qed


lemma reshape_wf:
  assumes "length xs = r * c"
  shows "wf_array (reshape xs (r, c))" and "shape (reshape xs (r, c)) = (r, c)"
proof -
  have "length (take c (drop (i * c) xs)) = c" if "i < r" for i
  proof -
    from that have "Suc i * c \<le> r * c" by (intro mult_le_mono1) simp
    then show ?thesis using assms by simp
  qed
  then show "wf_array (reshape xs (r, c))"
    by (auto simp: wf_array_def reshape_def list_all_iff)
  show "shape (reshape xs (r, c)) = (r, c)"
    by (simp add: shape_def nrows_def reshape_def)
qed

lemma np_div_wf: "wf_array (np_div a d) = wf_array a" "shape (np_div a d) = shape a"
  by (simp_all add: np_div_def map_array_def wf_array_def shape_def nrows_def list_all_iff)

lemma CameraAMG88xx_grid:
  "wf_array (grid_data (CameraAMG88xx r af True))"
  "shape (grid_data (CameraAMG88xx r af True)) = (15, 15)"
proof -
  have g: "grid_data (CameraAMG88xx r af True) =
      np_div (reshape (map (\<lambda>k. Fin (real (225 - k))) [0..<225]) (15, 15)) 225"
    by (simp add: CameraAMG88xx_def Let_def)
  show "wf_array (grid_data (CameraAMG88xx r af True))"
    unfolding g np_div_wf by (rule reshape_wf) simp
  show "shape (grid_data (CameraAMG88xx r af True)) = (15, 15)"
    unfolding g np_div_wf by (rule reshape_wf) simp
qed

text \<open>
  C1, as the code has it. For a frame of \<open>W\<close> rows of \<open>H\<close> samples (at least one sample)
  whose clipped values are all equal to \<open>v\<close>, an acquisition with autofocus leaves the
  statistics \<open>(v, v, v)\<close>. Without interpolation it raises nothing and returns the \<open>W\<close> by
  \<open>H\<close> normalised grid with the not-a-number that \<open>0 / 0\<close> gives in every cell. With
  interpolation, and a grid buffer that is rectangular of shape \<open>(2W - 1, 2H - 1)\<close>, it
  raises nothing and returns the \<open>2W - 1\<close> by \<open>2H - 1\<close> grid with not-a-number in every
  cell; for a grid buffer of another shape nothing is stated about what is returned or
  raised. The acquisition has no branch for \<open>max_c = min_c\<close>.
\<close>

theorem acquire_uniform_autofocus:
  assumes "concat sensor \<noteq> []"
    and "\<forall>r \<in> set sensor. length r = length (hd sensor)"
    and "\<forall>x \<in> set (concat sensor). clip (range_min_c cam) (range_max_c cam) x = v"
    and "auto_focus cam"
  shows
    "statistics (fst (acquire cam sensor)) = (v, v, v) \<and>
     (\<not> interpolate cam \<longrightarrow>
        snd (acquire cam sensor) =
          Inr \<lparr>ncols = length (hd sensor),
               rows = replicate (length sensor) (replicate (length (hd sensor)) NaN)\<rparr>) \<and>
     (interpolate cam \<and> wf_array (grid_data cam) \<and>
      shape (grid_data cam) = (2 * length sensor - 1, 2 * length (hd sensor) - 1) \<longrightarrow>
        snd (acquire cam sensor) =
          Inr \<lparr>ncols = 2 * length (hd sensor) - 1,
               rows = replicate (2 * length sensor - 1)
                        (replicate (2 * length (hd sensor) - 1) NaN)\<rparr>)"
  using acquire_uniform[OF assms] by blast

theorem acquire_uniform_autofocus_witness:
  "snd (acquire camera_2x2 [[20, 20], [20, 20]]) =
     Inr \<lparr>ncols = 3, rows = [[NaN, NaN, NaN], [NaN, NaN, NaN], [NaN, NaN, NaN]]\<rparr> \<and>
   statistics (fst (acquire camera_2x2 [[20, 20], [20, 20]])) = (20, 20, 20)"
  using acquire_uniform_autofocus[of "[[20, 20], [20, 20]]" camera_2x2 20]
  by (simp add: camera_2x2_def clip_def wf_array_def shape_def nrows_def numeral_3_eq_3)

text \<open>
  The claim as stated fails for the camera as \<^verbatim>\<open>code.py\<close> builds it (autofocus and
  interpolation on, range 0 to 80) on a frame of 8 by 8 samples of 20 degrees: the
  returned 15 by 15 grid holds not-a-number in every cell, not \<open>0.0\<close>.
\<close>

theorem acquire_uniform_not_zero:
  "snd (acquire (CameraAMG88xx (0, 80) True True) (replicate 8 (replicate 8 20))) =
     Inr \<lparr>ncols = 15, rows = replicate 15 (replicate 15 NaN)\<rparr> \<and>
   snd (acquire (CameraAMG88xx (0, 80) True True) (replicate 8 (replicate 8 20))) \<noteq>
     Inr \<lparr>ncols = 15, rows = replicate 15 (replicate 15 (Fin 0))\<rparr>"
proof -
  have 1: "concat (replicate 8 (replicate 8 (20::real))) \<noteq> []"
    by (simp add: numeral_eq_Suc)
  have hd8: "hd (replicate 8 (replicate 8 (20::real))) = replicate 8 20"
    by (simp add: numeral_eq_Suc)
  have 2: "\<forall>r \<in> set (replicate 8 (replicate 8 (20::real))).
      length r = length (hd (replicate 8 (replicate 8 (20::real))))"
    unfolding hd8 by simp
  have 3: "\<forall>x \<in> set (concat (replicate 8 (replicate 8 (20::real)))).
      clip (range_min_c (CameraAMG88xx (0, 80) True True))
           (range_max_c (CameraAMG88xx (0, 80) True True)) x = 20"
    by (auto simp: CameraAMG88xx_config clip_def)
  have 4: "auto_focus (CameraAMG88xx (0, 80) True True)"
    by (simp add: CameraAMG88xx_config)
  have 5: "interpolate (CameraAMG88xx (0, 80) True True)"
    by (simp add: CameraAMG88xx_config)
  have 6: "shape (grid_data (CameraAMG88xx (0, 80) True True)) =
      (2 * length (replicate 8 (replicate 8 (20::real))) - 1,
       2 * length (hd (replicate 8 (replicate 8 (20::real)))) - 1)"
    unfolding hd8 by (simp add: CameraAMG88xx_grid)
  have "snd (acquire (CameraAMG88xx (0, 80) True True) (replicate 8 (replicate 8 20))) =
     Inr \<lparr>ncols = 15, rows = replicate 15 (replicate 15 NaN)\<rparr>"
    using acquire_uniform(3)[OF 1 2 3 4 5 CameraAMG88xx_grid(1) 6] unfolding hd8 by simp
  then show ?thesis by (simp add: numeral_eq_Suc)
qed

subsection \<open>Rendering a frame\<close>

lemma for_each_append:
  "for_each f (xs @ ys) s =
     (case for_each f xs s of (s', None) \<Rightarrow> for_each f ys s' | (s', Some e) \<Rightarrow> (s', Some e))"
  by (induction xs arbitrary: s) (auto split: prod.splits option.splits)

lemma for_each_map: "for_each f (map g xs) s = for_each (\<lambda>x. f (g x)) xs s"
  by (induction xs arbitrary: s) (auto split: prod.splits option.splits)

lemma for_each_nested:
  "for_each (\<lambda>x. for_each (g x) ys) xs s =
   for_each (\<lambda>p. g (fst p) (snd p)) (concat (map (\<lambda>x. map (Pair x) ys) xs)) s"
  by (induction xs arbitrary: s)
     (auto simp: for_each_append for_each_map split: prod.splits option.splits)

lemma paint_config:
  "grid_axis (fst (paint gi c d)) = grid_axis d"
  "palette_size (fst (paint gi c d)) = palette_size d"
  "length (image_group (fst (paint gi c d))) = length (image_group d)"
  by (auto simp: paint_def write_fill_def split: sum.splits)

lemma paint_other: "k \<noteq> gi \<Longrightarrow> image_group (fst (paint gi c d)) ! k = image_group d ! k"
  by (auto simp: paint_def write_fill_def split: sum.splits)

lemma read_fill_writes [simp]: "read_fill (d\<lparr>fill_writes := w\<rparr>) k = read_fill d k"
  by (simp add: read_fill_def)

lemma get_fill_set_fill [simp]: "get_fill (set_fill c x) = Inr c"
  by (cases x) auto

lemma paint_error: "paint gi c d = (d', Some e) \<Longrightarrow> d' = d"
  by (auto simp: paint_def write_fill_def read_fill_def split: sum.splits if_splits)

lemma paint_done:
  assumes "paint gi cr d = (d', None)"
  shows "\<exists>c. cr = Inr c \<and> read_fill d' gi = Inr c"
  using assms
  by (auto simp: paint_def write_fill_def read_fill_def split: sum.splits if_splits)

lemma paint_writes:
  "paint gi cr (d\<lparr>fill_writes := w\<rparr>) =
     (fst (paint gi cr d)\<lparr>fill_writes := w @ drop (length (fill_writes d)) (fill_writes (fst (paint gi cr d)))\<rparr>,
      snd (paint gi cr d))"
  by (auto simp: paint_def write_fill_def read_fill_def split: sum.splits if_splits)

lemma paint_idle:
  assumes "read_fill d gi = Inr c"
  shows "paint gi (Inr c) d = (d, None)"
  using assms by (simp add: paint_def)

lemma run_tasks_Cons:
  "run_tasks (t # ts) d =
     (case paint (fst t) (snd t) d of
        (d', None) \<Rightarrow> run_tasks ts d' | (d', Some e) \<Rightarrow> (d', Some e))"
  unfolding run_tasks_def by simp

lemma run_tasks_Nil: "run_tasks [] d = (d, None)"
  by (simp add: run_tasks_def)

lemma run_tasks_config:
  "grid_axis (fst (run_tasks ts d)) = grid_axis d \<and>
   palette_size (fst (run_tasks ts d)) = palette_size d \<and>
   length (image_group (fst (run_tasks ts d))) = length (image_group d)"
proof (induction ts arbitrary: d)
  case Nil
  show ?case by (simp add: run_tasks_Nil)
next
  case (Cons t ts)
  obtain d' r where p: "paint (fst t) (snd t) d = (d', r)" by (cases "paint (fst t) (snd t) d")
  with paint_config[of "fst t" "snd t" d] have c: "grid_axis d' = grid_axis d"
    "palette_size d' = palette_size d" "length (image_group d') = length (image_group d)"
    by simp_all
  show ?case
    using Cons.IH[of d'] c by (cases r) (simp_all add: run_tasks_Cons p)
qed

lemma run_tasks_other:
  "k \<notin> fst ` set ts \<Longrightarrow> image_group (fst (run_tasks ts d)) ! k = image_group d ! k"
proof (induction ts arbitrary: d)
  case Nil
  show ?case by (simp add: run_tasks_Nil)
next
  case (Cons t ts)
  obtain d' r where p: "paint (fst t) (snd t) d = (d', r)" by (cases "paint (fst t) (snd t) d")
  from Cons.prems have k: "k \<noteq> fst t" "k \<notin> fst ` set ts" by auto
  from paint_other[OF k(1), of "snd t" d] p have o: "image_group d' ! k = image_group d ! k"
    by simp
  show ?case
    using Cons.IH[OF k(2), of d'] o by (cases r) (simp_all add: run_tasks_Cons p)
qed

lemma read_fill_eq:
  "length (image_group d') = length (image_group d) \<Longrightarrow>
   image_group d' ! k = image_group d ! k \<Longrightarrow> read_fill d' k = read_fill d k"
  by (simp add: read_fill_def)

text \<open>Running the same tasks again changes nothing and writes nothing.\<close>

lemma run_tasks_again:
  assumes "distinct (map fst ts)" and "run_tasks ts d = (d1, e)"
  shows "run_tasks ts (d1\<lparr>fill_writes := w\<rparr>) = (d1\<lparr>fill_writes := w\<rparr>, e)"
  using assms
proof (induction ts arbitrary: d)
  case Nil
  then show ?case by (simp add: run_tasks_Nil)
next
  case (Cons t ts)
  obtain d' r where p: "paint (fst t) (snd t) d = (d', r)" by (cases "paint (fst t) (snd t) d")
  show ?case
  proof (cases r)
    case (Some e')
    with p have d': "d' = d" by (auto dest: paint_error)
    from Cons.prems(2) p Some d' have "d1 = d" "e = Some e'" by (simp_all add: run_tasks_Cons)
    moreover have "paint (fst t) (snd t) (d\<lparr>fill_writes := w\<rparr>) = (d\<lparr>fill_writes := w\<rparr>, Some e')"
      using p Some d' by (simp add: paint_writes)
    ultimately show ?thesis by (simp add: run_tasks_Cons)
  next
    case None
    with Cons.prems(2) p have rest: "run_tasks ts d' = (d1, e)" by (simp add: run_tasks_Cons)
    from Cons.prems(1) have dist: "distinct (map fst ts)" and notin: "fst t \<notin> fst ` set ts"
      by auto
    from paint_done[of "fst t" "snd t" d d'] p None obtain c where
      c: "snd t = Inr c" "read_fill d' (fst t) = Inr c" by auto
    have "read_fill d1 (fst t) = read_fill d' (fst t)"
      using run_tasks_other[OF notin, of d'] run_tasks_config[of ts d'] rest
      by (intro read_fill_eq) simp_all
    with c have "paint (fst t) (snd t) (d1\<lparr>fill_writes := w\<rparr>) = (d1\<lparr>fill_writes := w\<rparr>, None)"
      by (simp add: paint_idle)
    with Cons.IH[OF dist rest] show ?thesis by (simp add: run_tasks_Cons)
  qed
qed


lemma paint_cases:
  assumes "paint gi cr d = (d', None)"
  shows "d' = d \<or>
    (\<exists>c. cr = Inr c \<and> read_fill d gi \<noteq> Inr c \<and>
         fill_writes d' = fill_writes d @ [(gi, c)])"
  using assms
  by (auto simp: paint_def write_fill_def read_fill_def split: sum.splits if_splits)

text \<open>
  Every assignment of a run replaces a fill by a different colour, the cell then holds
  the assigned colour, and a cell without an assignment keeps its element.
\<close>

lemma run_tasks_log:
  assumes "distinct (map fst ts)"
  shows "\<exists>ws. fill_writes (fst (run_tasks ts d)) = fill_writes d @ ws \<and>
     (\<forall>(gi, c) \<in> set ws. read_fill d gi \<noteq> Inr c \<and>
          read_fill (fst (run_tasks ts d)) gi = Inr c \<and> gi \<in> fst ` set ts) \<and>
     (\<forall>k. k \<notin> fst ` set ws \<longrightarrow> image_group (fst (run_tasks ts d)) ! k = image_group d ! k)"
  using assms
proof (induction ts arbitrary: d)
  case Nil
  show ?case by (simp add: run_tasks_Nil)
next
  case (Cons t ts)
  obtain d' r where p: "paint (fst t) (snd t) d = (d', r)" by (cases "paint (fst t) (snd t) d")
  show ?case
  proof (cases r)
    case (Some e')
    with p have "d' = d" by (auto dest: paint_error)
    with p Some have "fst (run_tasks (t # ts) d) = d" by (simp add: run_tasks_Cons)
    then show ?thesis by simp
  next
    case None
    with p have run: "run_tasks (t # ts) d = run_tasks ts d'" by (simp add: run_tasks_Cons)
    define d1 where "d1 = fst (run_tasks ts d')"
    from Cons.prems have dist: "distinct (map fst ts)" and notin: "fst t \<notin> fst ` set ts"
      by auto
    from Cons.IH[OF dist, of d'] obtain ws where
      w1: "fill_writes d1 = fill_writes d' @ ws" and
      w2': "\<forall>(gi, c) \<in> set ws. read_fill d' gi \<noteq> Inr c \<and>
          read_fill d1 gi = Inr c \<and> gi \<in> fst ` set ts" and
      w3': "\<forall>k. k \<notin> fst ` set ws \<longrightarrow> image_group d1 ! k = image_group d' ! k"
      unfolding d1_def by blast
    have w2: "read_fill d' gi \<noteq> Inr c \<and> read_fill d1 gi = Inr c \<and> gi \<in> fst ` set ts"
      if "(gi, c) \<in> set ws" for gi c
      using w2' that by auto
    have w3: "image_group d1 ! k = image_group d' ! k" if "k \<notin> fst ` set ws" for k
      using w3' that by auto
    have len: "length (image_group d') = length (image_group d)"
      using paint_config(3)[of "fst t" "snd t" d] p by simp
    have len1: "length (image_group d1) = length (image_group d')"
      using run_tasks_config[of ts d'] by (simp add: d1_def)
    have other: "read_fill d' gi = read_fill d gi" if "gi \<noteq> fst t" for gi
      using paint_other[OF that, of "snd t" d] p len by (intro read_fill_eq) simp_all
    have ws_old: "read_fill d gi \<noteq> Inr c \<and> read_fill d1 gi = Inr c \<and> gi \<in> fst ` set (t # ts)"
      if "(gi, c) \<in> set ws" for gi c
    proof -
      from w2[OF that] have a: "read_fill d' gi \<noteq> Inr c" "read_fill d1 gi = Inr c"
        "gi \<in> fst ` set ts" by auto
      with notin have "gi \<noteq> fst t" by blast
      with a other[of gi] show ?thesis by auto
    qed
    from paint_cases[of "fst t" "snd t" d d'] p None
    consider (idle) "d' = d"
      | (wrote) c where "snd t = Inr c" "read_fill d (fst t) \<noteq> Inr c"
          "fill_writes d' = fill_writes d @ [(fst t, c)]"
      by auto
    then show ?thesis
    proof cases
      case idle
      have "fill_writes d1 = fill_writes d @ ws" using w1 idle by simp
      moreover have "\<forall>(gi, c) \<in> set ws. read_fill d gi \<noteq> Inr c \<and>
          read_fill d1 gi = Inr c \<and> gi \<in> fst ` set (t # ts)"
        using ws_old by auto
      moreover have "\<forall>k. k \<notin> fst ` set ws \<longrightarrow> image_group d1 ! k = image_group d ! k"
        using w3 idle by simp
      ultimately show ?thesis unfolding run d1_def[symmetric] by blast
    next
      case wrote
      from paint_done[of "fst t" "snd t" d d'] p None wrote(1)
      have rd: "read_fill d' (fst t) = Inr c" by auto
      have "read_fill d1 (fst t) = read_fill d' (fst t)"
        using run_tasks_other[OF notin, of d'] len1 by (intro read_fill_eq) (simp_all add: d1_def)
      with rd have rd1: "read_fill d1 (fst t) = Inr c" by simp
      have "fill_writes d1 = fill_writes d @ ((fst t, c) # ws)" using w1 wrote(3) by simp
      moreover have "\<forall>(gi, c') \<in> set ((fst t, c) # ws). read_fill d gi \<noteq> Inr c' \<and>
          read_fill d1 gi = Inr c' \<and> gi \<in> fst ` set (t # ts)"
        using ws_old wrote(2) rd1 by auto
      moreover have "\<forall>k. k \<notin> fst ` set ((fst t, c) # ws) \<longrightarrow>
          image_group d1 ! k = image_group d ! k"
      proof (intro allI impI)
        fix k assume "k \<notin> fst ` set ((fst t, c) # ws)"
        then have k: "k \<noteq> fst t" "k \<notin> fst ` set ws" by auto
        from w3[OF k(2)] paint_other[OF k(1), of "snd t" d] p
        show "image_group d1 ! k = image_group d ! k" by simp
      qed
      ultimately show ?thesis unfolding run d1_def[symmetric] by blast
    qed
  qed
qed

text \<open>After a run without error every task's cell holds the task's colour.\<close>

lemma run_tasks_cells:
  assumes "distinct (map fst ts)" and "run_tasks ts d = (d1, None)"
    and "(gi, cr) \<in> set ts"
  shows "\<exists>c. cr = Inr c \<and> read_fill d1 gi = Inr c"
  using assms
proof (induction ts arbitrary: d)
  case Nil
  then show ?case by simp
next
  case (Cons t ts)
  obtain d' r where p: "paint (fst t) (snd t) d = (d', r)" by (cases "paint (fst t) (snd t) d")
  with Cons.prems(2) have r: "r = None" and rest: "run_tasks ts d' = (d1, None)"
    by (auto simp: run_tasks_Cons split: option.splits)
  from Cons.prems(1) have dist: "distinct (map fst ts)" and notin: "fst t \<notin> fst ` set ts"
    by auto
  show ?case
  proof (cases "(gi, cr) = t")
    case True
    from paint_done[of "fst t" "snd t" d d'] p r obtain c where
      c: "snd t = Inr c" "read_fill d' (fst t) = Inr c" by auto
    have "read_fill d1 (fst t) = read_fill d' (fst t)"
      using run_tasks_other[OF notin, of d'] run_tasks_config[of ts d'] rest
      by (intro read_fill_eq) simp_all
    with c True show ?thesis by auto
  next
    case False
    with Cons.prems(3) have "(gi, cr) \<in> set ts" by auto
    from Cons.IH[OF dist rest this] show ?thesis .
  qed
qed

lemma group_indices: "concat (map (\<lambda>col. map (\<lambda>row. col * n + row) [0..<n]) [0..<m]) = [0..<m * n]"
proof (induction m)
  case 0
  show ?case by simp
next
  case (Suc m)
  have "map (\<lambda>row. m * n + row) [0..<n] = [m * n..<m * n + n]"
    by (simp add: list_eq_iff_nth_eq)
  moreover have "[0..<m * n] @ [m * n..<m * n + n] = [0..<Suc m * n]"
    using upt_add_eq_append[of 0 "m * n" n] by (simp add: add.commute)
  ultimately show ?case using Suc by simp
qed

lemma map_index_cells:
  "map (\<lambda>p. fst p * n + snd p) (concat (map (\<lambda>col. map (Pair col) ys) xs)) =
   concat (map (\<lambda>col. map (\<lambda>row. col * n + row) ys) xs)"
  by (induction xs) (simp_all add: comp_def)

lemma frame_tasks_indices:
  "map fst (frame_tasks irgb grid selfie d) = [0..<fst (grid_axis d) * snd (grid_axis d)]"
proof -
  have "map fst (frame_tasks irgb grid selfie d) =
      map (\<lambda>p. fst p * snd (grid_axis d) + snd p) (frame_cells d)"
    unfolding frame_tasks_def by (simp add: case_prod_beta comp_def)
  then show ?thesis
    unfolding frame_cells_def map_index_cells group_indices by simp
qed


lemma frame_tasks_distinct: "distinct (map fst (frame_tasks irgb grid selfie d))"
  by (simp add: frame_tasks_indices)

lemma cell_color_cong:
  "grid_axis d' = grid_axis d \<Longrightarrow> palette_size d' = palette_size d \<Longrightarrow>
   cell_color irgb d' grid selfie col row = cell_color irgb d grid selfie col row"
  by (simp add: cell_color_def palette_color_def cong: sum.case_cong)

lemma frame_tasks_member:
  assumes "col < fst (grid_axis d)" and "row < snd (grid_axis d)"
  shows "(col * snd (grid_axis d) + row, cell_color irgb d grid selfie col row)
     \<in> set (frame_tasks irgb grid selfie d)"
proof -
  from assms have "(col, row) \<in> set (frame_cells d)"
    unfolding frame_cells_def by (simp add: image_iff)
  then have "(\<lambda>(col, row). (col * snd (grid_axis d) + row,
        cell_color irgb d grid selfie col row)) (col, row)
      \<in> set (frame_tasks irgb grid selfie d)"
    unfolding frame_tasks_def set_map by (rule imageI)
  then show ?thesis by simp
qed

lemma frame_tasks_config:
  "frame_tasks irgb grid selfie (d\<lparr>fill_writes := w\<rparr>) = frame_tasks irgb grid selfie d"
  unfolding frame_tasks_def frame_cells_def
  by (simp add: cell_color_cong[of "d\<lparr>fill_writes := w\<rparr>" d])


lemma for_each_update_cell:
  assumes "grid_axis d' = grid_axis d" and "palette_size d' = palette_size d"
  shows "for_each (\<lambda>p. update_cell irgb grid selfie (fst p) (snd p)) ps d' =
    run_tasks (map (\<lambda>(col, row). (col * snd (grid_axis d) + row,
                                  cell_color irgb d grid selfie col row)) ps) d'"
  using assms
proof (induction ps arbitrary: d')
  case Nil
  show ?case by (simp add: run_tasks_Nil)
next
  case (Cons p ps)
  obtain col row where cr: "p = (col, row)" by (cases p)
  have u: "update_cell irgb grid selfie col row d' =
      paint (col * snd (grid_axis d) + row) (cell_color irgb d grid selfie col row) d'"
    using Cons.prems cell_color_cong[of d' d irgb grid selfie col row]
    by (simp add: update_cell_def)
  obtain d'' r where pp: "paint (col * snd (grid_axis d) + row)
      (cell_color irgb d grid selfie col row) d' = (d'', r)"
    by (cases "paint (col * snd (grid_axis d) + row) (cell_color irgb d grid selfie col row) d'")
  from paint_config(1,2)[of "col * snd (grid_axis d) + row"
      "cell_color irgb d grid selfie col row" d'] pp Cons.prems
  have c: "grid_axis d'' = grid_axis d" "palette_size d'' = palette_size d" by simp_all
  show ?case
  proof (cases r)
    case None
    then show ?thesis using Cons.IH[OF c] by (simp add: cr u pp run_tasks_Cons)
  next
    case (Some e)
    then show ?thesis by (simp add: cr u pp run_tasks_Cons)
  qed
qed

lemma update_image_frame_tasks:
  "update_image_frame irgb grid selfie d = run_tasks (frame_tasks irgb grid selfie d) d"
  unfolding update_image_frame_def frame_tasks_def frame_cells_def for_each_nested
  by (rule for_each_update_cell) simp_all


lemma frame_tasks_cong:
  assumes "grid_axis d' = grid_axis d" and "palette_size d' = palette_size d"
  shows "frame_tasks irgb grid selfie d' = frame_tasks irgb grid selfie d"
  unfolding frame_tasks_def frame_cells_def
  using assms cell_color_cong[OF assms, of irgb grid selfie] by simp

text \<open>
  C4. A call of \<open>update_image_frame\<close> assigns a fill only where the new colour differs
  from the stored one: every logged assignment \<open>(gi, c)\<close> replaced a fill other than \<open>c\<close>,
  the cell holds \<open>c\<close> afterwards, and the cells without an assignment keep what they
  held. Calling it again with the same grid and the same selfie setting (the log emptied
  in between) assigns nothing and leaves the display as it was, whether or not the first
  call raised.
\<close>

theorem update_image_frame_diff_only:
  "(\<exists>ws. fill_writes (fst (update_image_frame irgb grid selfie d)) = fill_writes d @ ws \<and>
      (\<forall>(gi, c) \<in> set ws. read_fill d gi \<noteq> Inr c \<and>
          read_fill (fst (update_image_frame irgb grid selfie d)) gi = Inr c) \<and>
      (\<forall>k. k \<notin> fst ` set ws \<longrightarrow>
          image_group (fst (update_image_frame irgb grid selfie d)) ! k = image_group d ! k)) \<and>
   update_image_frame irgb grid selfie
       (fst (update_image_frame irgb grid selfie d)\<lparr>fill_writes := []\<rparr>) =
     (fst (update_image_frame irgb grid selfie d)\<lparr>fill_writes := []\<rparr>,
      snd (update_image_frame irgb grid selfie d))"
proof -
  define ts where "ts = frame_tasks irgb grid selfie d"
  define d1 where "d1 = fst (run_tasks ts d)"
  have dist: "distinct (map fst ts)" unfolding ts_def by (rule frame_tasks_distinct)
  have U: "update_image_frame irgb grid selfie d = run_tasks ts d"
    unfolding ts_def by (rule update_image_frame_tasks)
  have cfg: "grid_axis (d1\<lparr>fill_writes := []\<rparr>) = grid_axis d"
    "palette_size (d1\<lparr>fill_writes := []\<rparr>) = palette_size d"
    using run_tasks_config[of ts d] by (simp_all add: d1_def)
  have U2: "update_image_frame irgb grid selfie (d1\<lparr>fill_writes := []\<rparr>) =
      run_tasks ts (d1\<lparr>fill_writes := []\<rparr>)"
    unfolding update_image_frame_tasks ts_def frame_tasks_cong[OF cfg] ..
  have run: "run_tasks ts d = (d1, snd (run_tasks ts d))" by (simp add: d1_def)
  from run_tasks_log[OF dist, of d] obtain ws where
    "fill_writes d1 = fill_writes d @ ws"
    "\<forall>(gi, c) \<in> set ws. read_fill d gi \<noteq> Inr c \<and> read_fill d1 gi = Inr c \<and> gi \<in> fst ` set ts"
    "\<forall>k. k \<notin> fst ` set ws \<longrightarrow> image_group d1 ! k = image_group d ! k"
    unfolding d1_def by blast
  then have 1: "\<exists>ws. fill_writes d1 = fill_writes d @ ws \<and>
      (\<forall>(gi, c) \<in> set ws. read_fill d gi \<noteq> Inr c \<and> read_fill d1 gi = Inr c) \<and>
      (\<forall>k. k \<notin> fst ` set ws \<longrightarrow> image_group d1 ! k = image_group d ! k)"
    by (intro exI[of _ ws]) auto
  have 2: "run_tasks ts (d1\<lparr>fill_writes := []\<rparr>) = (d1\<lparr>fill_writes := []\<rparr>, snd (run_tasks ts d))"
    by (rule run_tasks_again[OF dist run])
  show ?thesis
    unfolding U U2[unfolded d1_def] using 1 2 unfolding d1_def by blast
qed

lemma round_half_even_of_int: "round_half_even (of_int k) = k"
  by (simp add: round_half_even_def)

lemmas frame_eval =
  update_image_frame_def Display_def update_cell_def cell_color_def palette_color_def
  getitem2_def nrows_def cell_def py_truediv_def ramp_palette_def paint_def read_fill_def
  write_fill_def WHITE_def BLACK_def PURPLE_def upt_rec numeral_eq_Suc round_half_even_def

theorem update_image_frame_diff_only_witness:
  "fst (update_image_frame ramp_palette \<lparr>ncols = 2, rows = [[Fin 0, Fin 1], [Fin 1, Fin 0]]\<rparr> True
          (Display (2, 2) 100)) =
     \<lparr>grid_axis = (2, 2), palette_size = 100,
      image_group = [Rect WHITE, Rect BLACK, Rect BLACK, Rect WHITE] @ replicate 9 (Label None),
      fill_writes = [(0, WHITE), (1, BLACK), (2, BLACK), (3, WHITE)]\<rparr> \<and>
   update_image_frame ramp_palette \<lparr>ncols = 2, rows = [[Fin 0, Fin 1], [Fin 1, Fin 0]]\<rparr> True
     \<lparr>grid_axis = (2, 2), palette_size = 100,
      image_group = [Rect WHITE, Rect BLACK, Rect BLACK, Rect WHITE] @ replicate 9 (Label None),
      fill_writes = []\<rparr> =
    (\<lparr>grid_axis = (2, 2), palette_size = 100,
      image_group = [Rect WHITE, Rect BLACK, Rect BLACK, Rect WHITE] @ replicate 9 (Label None),
      fill_writes = []\<rparr>, None)"
proof -
  have 1: "update_image_frame ramp_palette \<lparr>ncols = 2, rows = [[Fin 0, Fin 1], [Fin 1, Fin 0]]\<rparr>
      True (Display (2, 2) 100) =
     (\<lparr>grid_axis = (2, 2), palette_size = 100,
      image_group = [Rect WHITE, Rect BLACK, Rect BLACK, Rect WHITE] @ replicate 9 (Label None),
      fill_writes = [(0, WHITE), (1, BLACK), (2, BLACK), (3, WHITE)]\<rparr>, None)"
    by (simp add: frame_eval)
  show ?thesis
    using update_image_frame_diff_only[of ramp_palette
        "\<lparr>ncols = 2, rows = [[Fin 0, Fin 1], [Fin 1, Fin 0]]\<rparr>" True "Display (2, 2) 100"]
    unfolding 1 by simp
qed

lemma group_index_less: "col < m \<Longrightarrow> row < n \<Longrightarrow> col * n + row < m * (n::nat)"
proof -
  assume a: "col < m" "row < n"
  then have "col * n + row < Suc col * n" by simp
  also have "\<dots> \<le> m * n" using a(1) by (intro mult_le_mono1) simp
  finally show ?thesis .
qed



text \<open>
  After a call that did not raise, the cell with group index \<open>_col * grid_axis[1] + _row\<close>
  holds the palette colour of the source value at \<open>(_col, _row)\<close> without selfie and at
  \<open>(_col, grid_axis[1] - 1 - _row)\<close> with selfie.
\<close>

lemma update_image_frame_group_cell:
  assumes "update_image_frame irgb grid selfie d = (d', None)"
    and "col < fst (grid_axis d)" and "row < snd (grid_axis d)"
  shows "getitem2 grid col (if selfie then snd (grid_axis d) - 1 - row else row) =
           Inr (cell grid col (if selfie then snd (grid_axis d) - 1 - row else row))"
    and "read_fill d' (col * snd (grid_axis d) + row) =
           palette_color irgb d
             (cell grid col (if selfie then snd (grid_axis d) - 1 - row else row))"
proof -
  have "(col * snd (grid_axis d) + row, cell_color irgb d grid selfie col row)
      \<in> set (frame_tasks irgb grid selfie d)"
    by (intro frame_tasks_member assms(2,3))
  from run_tasks_cells[OF frame_tasks_distinct assms(1)[unfolded update_image_frame_tasks] this]
  obtain c where c: "cell_color irgb d grid selfie col row = Inr c"
    "read_fill d' (col * snd (grid_axis d) + row) = Inr c" by blast
  from c(1) show g: "getitem2 grid col (if selfie then snd (grid_axis d) - 1 - row else row) =
           Inr (cell grid col (if selfie then snd (grid_axis d) - 1 - row else row))"
    by (auto simp: cell_color_def getitem2_def split: sum.splits if_splits)
  with c show "read_fill d' (col * snd (grid_axis d) + row) =
           palette_color irgb d
             (cell grid col (if selfie then snd (grid_axis d) - 1 - row else row))"
    by (auto simp: cell_color_def split: if_splits)
qed




text \<open>A run whose tasks can only fail with an index error.\<close>

lemma paint_keeps_fill:
  assumes "\<exists>c. read_fill d k = Inr c"
  shows "\<exists>c. read_fill (fst (paint gi cr d)) k = Inr c"
  using assms
  by (cases "k = gi")
     (auto simp: paint_def write_fill_def read_fill_def split: sum.splits if_splits)

lemma run_tasks_error:
  assumes "\<forall>(gi, cr) \<in> set ts. (\<exists>c. read_fill d gi = Inr c) \<and>
      (cr = Inl IndexError \<or> (\<exists>c. cr = Inr c))"
  shows "snd (run_tasks ts d) =
      (if \<exists>(gi, cr) \<in> set ts. cr = Inl IndexError then Some IndexError else None)"
  using assms
proof (induction ts arbitrary: d)
  case Nil
  show ?case by (simp add: run_tasks_Nil)
next
  case (Cons t ts)
  obtain gi cr where t: "t = (gi, cr)" by (cases t)
  from Cons.prems t obtain c0 where rd: "read_fill d gi = Inr c0"
    and cr: "cr = Inl IndexError \<or> (\<exists>c. cr = Inr c)" by auto
  from cr show ?case
  proof
    assume "cr = Inl IndexError"
    then show ?thesis by (simp add: run_tasks_Cons t paint_def)
  next
    assume "\<exists>c. cr = Inr c"
    then obtain c where c: "cr = Inr c" by blast
    have "snd (paint gi cr d) = None"
      using rd c by (auto simp: paint_def write_fill_def read_fill_def split: if_splits)
    then obtain d' where p: "paint gi cr d = (d', None)"
      by (cases "paint gi cr d") auto
    have "\<forall>(gj, cj) \<in> set ts. (\<exists>c. read_fill d' gj = Inr c) \<and>
        (cj = Inl IndexError \<or> (\<exists>c. cj = Inr c))"
    proof (intro ballI, clarify)
      fix gj cj assume m: "(gj, cj) \<in> set ts"
      with Cons.prems have a: "\<exists>c. read_fill d gj = Inr c"
        "cj = Inl IndexError \<or> (\<exists>c. cj = Inr c)" by auto
      from paint_keeps_fill[OF a(1), of gi cr] p have "\<exists>c. read_fill d' gj = Inr c" by simp
      with a(2) show "(\<exists>c. read_fill d' gj = Inr c) \<and> (cj = Inl IndexError \<or> (\<exists>c. cj = Inr c))"
        by blast
    qed
    from Cons.IH[OF this] show ?thesis
      by (simp add: run_tasks_Cons t c p[unfolded c])
  qed
qed

lemma frame_tasks_set:
  "(gi, cr) \<in> set (frame_tasks irgb grid selfie d) \<longleftrightarrow>
     (\<exists>col row. col < fst (grid_axis d) \<and> row < snd (grid_axis d) \<and>
        gi = col * snd (grid_axis d) + row \<and> cr = cell_color irgb d grid selfie col row)"
  unfolding frame_tasks_def frame_cells_def by force

text \<open>
  C9, as the code has it. \<open>update_image_frame\<close> does not compare the shape of the grid
  with the configured axis. With a palette that never raises, a palette size other than
  zero and a fill in each of the \<open>grid_axis[0] * grid_axis[1]\<close> cells of the display, a
  call raises exactly when the axis is not empty and the grid has fewer rows than
  \<open>grid_axis[0]\<close> or fewer columns than \<open>grid_axis[1]\<close>, and what it raises is the
  \<^verbatim>\<open>IndexError\<close> of the first read outside the grid; a grid larger than the axis is
  accepted.
\<close>

theorem update_image_frame_shape:
  assumes "\<forall>v. \<exists>c. irgb v = Inr c" and "palette_size d \<noteq> 0"
    and "\<forall>k < fst (grid_axis d) * snd (grid_axis d). \<exists>c. read_fill d k = Inr c"
  shows "snd (update_image_frame irgb grid selfie d) =
     (if 0 < fst (grid_axis d) \<and> 0 < snd (grid_axis d) \<and>
         (nrows grid < fst (grid_axis d) \<or> ncols grid < snd (grid_axis d))
      then Some IndexError else None)"
proof -
  define A0 where "A0 = fst (grid_axis d)"
  define A1 where "A1 = snd (grid_axis d)"
  define src where "src = (\<lambda>row. if selfie then A1 - 1 - row else row)"
  have pc: "\<exists>c. palette_color irgb d v = Inr c" for v
    using assms(1,2) by (simp add: palette_color_def py_truediv_def)
  have cc: "cell_color irgb d grid selfie col row =
      (if col < nrows grid \<and> src row < ncols grid
       then palette_color irgb d (cell grid col (src row)) else Inl IndexError)" for col row
    by (simp add: cell_color_def getitem2_def src_def A1_def)
  have ok: "\<forall>(gi, cr) \<in> set (frame_tasks irgb grid selfie d).
      (\<exists>c. read_fill d gi = Inr c) \<and> (cr = Inl IndexError \<or> (\<exists>c. cr = Inr c))"
  proof (intro ballI, clarify)
    fix gi cr assume "(gi, cr) \<in> set (frame_tasks irgb grid selfie d)"
    then obtain col row where m: "col < fst (grid_axis d)" "row < snd (grid_axis d)"
      "gi = col * snd (grid_axis d) + row" "cr = cell_color irgb d grid selfie col row"
      unfolding frame_tasks_set by blast
    from group_index_less[OF m(1,2)] assms(3) m(3) have "\<exists>c. read_fill d gi = Inr c" by simp
    moreover have "cr = Inl IndexError \<or> (\<exists>c. cr = Inr c)"
      using pc[of "cell grid col (src row)"] by (auto simp: m(4) cc)
    ultimately show "(\<exists>c. read_fill d gi = Inr c) \<and> (cr = Inl IndexError \<or> (\<exists>c. cr = Inr c))"
      by blast
  qed
  have fails: "(\<exists>(gi, cr) \<in> set (frame_tasks irgb grid selfie d). cr = Inl IndexError) \<longleftrightarrow>
      (\<exists>col row. col < A0 \<and> row < A1 \<and> \<not> (col < nrows grid \<and> src row < ncols grid))"
  proof -
    have e: "cell_color irgb d grid selfie col row = Inl IndexError \<longleftrightarrow>
        \<not> (col < nrows grid \<and> src row < ncols grid)" for col row
      using pc[of "cell grid col (src row)"] by (auto simp: cc)
    have "(\<exists>(gi, cr) \<in> set (frame_tasks irgb grid selfie d). cr = Inl IndexError) \<longleftrightarrow>
        (\<exists>col row. col < A0 \<and> row < A1 \<and> cell_color irgb d grid selfie col row = Inl IndexError)"
      unfolding A0_def A1_def
    proof
      assume "\<exists>(gi, cr) \<in> set (frame_tasks irgb grid selfie d). cr = Inl IndexError"
      then obtain gi where "(gi, Inl IndexError) \<in> set (frame_tasks irgb grid selfie d)" by auto
      then show "\<exists>col row. col < fst (grid_axis d) \<and> row < snd (grid_axis d) \<and>
          cell_color irgb d grid selfie col row = Inl IndexError"
        unfolding frame_tasks_set by metis
    next
      assume "\<exists>col row. col < fst (grid_axis d) \<and> row < snd (grid_axis d) \<and>
          cell_color irgb d grid selfie col row = Inl IndexError"
      then obtain col row where m: "col < fst (grid_axis d)" "row < snd (grid_axis d)"
        "cell_color irgb d grid selfie col row = Inl IndexError" by blast
      from frame_tasks_member[OF m(1,2), of irgb grid selfie] m(3)
      show "\<exists>(gi, cr) \<in> set (frame_tasks irgb grid selfie d). cr = Inl IndexError"
        by (intro bexI[of _ "(col * snd (grid_axis d) + row, Inl IndexError)"]) simp_all
    qed
    then show ?thesis by (simp add: e)
  qed
  have shape: "(\<exists>col row. col < A0 \<and> row < A1 \<and> \<not> (col < nrows grid \<and> src row < ncols grid)) \<longleftrightarrow>
      0 < A0 \<and> 0 < A1 \<and> (nrows grid < A0 \<or> ncols grid < A1)"
  proof
    assume "\<exists>col row. col < A0 \<and> row < A1 \<and> \<not> (col < nrows grid \<and> src row < ncols grid)"
    then obtain col row where a: "col < A0" "row < A1"
      "\<not> (col < nrows grid \<and> src row < ncols grid)" by blast
    have "src row < A1" using a(2) by (simp add: src_def)
    with a show "0 < A0 \<and> 0 < A1 \<and> (nrows grid < A0 \<or> ncols grid < A1)" by auto
  next
    assume b: "0 < A0 \<and> 0 < A1 \<and> (nrows grid < A0 \<or> ncols grid < A1)"
    then consider "nrows grid < A0" | "ncols grid < A1" by blast
    then show "\<exists>col row. col < A0 \<and> row < A1 \<and> \<not> (col < nrows grid \<and> src row < ncols grid)"
    proof cases
      case 1
      with b show ?thesis by (intro exI[of _ "nrows grid"] exI[of _ 0]) simp
    next
      case 2
      define row where "row = (if selfie then A1 - 1 - ncols grid else ncols grid)"
      have "row < A1" "src row = ncols grid" using 2 by (auto simp: row_def src_def)
      with b show ?thesis by (intro exI[of _ 0] exI[of _ row]) simp
    qed
  qed
  show ?thesis
    unfolding update_image_frame_tasks run_tasks_error[OF ok] fails shape
    by (simp add: A0_def A1_def)
qed

lemma ramp_palette_total: "\<exists>c. ramp_palette v = Inr c"
  by (cases v) (simp_all add: ramp_palette_def Let_def)

theorem update_image_frame_shape_witness:
  "snd (update_image_frame ramp_palette \<lparr>ncols = 2, rows = [[Fin 0, Fin 1], [Fin 1, Fin 0]]\<rparr> False
         (Display (3, 2) 100)) = Some IndexError \<and>
   snd (update_image_frame ramp_palette \<lparr>ncols = 2, rows = [[Fin 0, Fin 1], [Fin 1, Fin 0]]\<rparr> False
         (Display (2, 2) 100)) = None"
proof -
  have p: "\<forall>v. \<exists>c. ramp_palette v = Inr c" using ramp_palette_total by blast
  have a: "palette_size (Display (3, 2) 100) \<noteq> 0" "palette_size (Display (2, 2) 100) \<noteq> 0"
    by (simp_all add: Display_def)
  have b: "\<forall>k < fst (grid_axis (Display (3, 2) 100)) * snd (grid_axis (Display (3, 2) 100)).
      \<exists>c. read_fill (Display (3, 2) 100) k = Inr c"
    by (simp add: Display_def read_fill_def upt_rec numeral_eq_Suc less_Suc_eq)
  have c: "\<forall>k < fst (grid_axis (Display (2, 2) 100)) * snd (grid_axis (Display (2, 2) 100)).
      \<exists>c. read_fill (Display (2, 2) 100) k = Inr c"
    by (simp add: Display_def read_fill_def upt_rec numeral_eq_Suc less_Suc_eq)
  show ?thesis
    using update_image_frame_shape[OF p a(1) b, of "\<lparr>ncols = 2, rows = [[Fin 0, Fin 1], [Fin 1, Fin 0]]\<rparr>" False]
      update_image_frame_shape[OF p a(2) c, of "\<lparr>ncols = 2, rows = [[Fin 0, Fin 1], [Fin 1, Fin 0]]\<rparr>" False]
    by (simp add: Display_def nrows_def)
qed

text \<open>
  The claim as stated fails: a 2 by 2 grid given to a display configured for 1 by 1 cells
  does not match the configured axis, and the call returns without any error.
\<close>

theorem update_image_frame_accepts_larger_grid:
  "update_image_frame ramp_palette \<lparr>ncols = 2, rows = [[Fin 0, Fin 1], [Fin 1, Fin 0]]\<rparr> False
      (Display (1, 1) 100) =
     (\<lparr>grid_axis = (1, 1), palette_size = 100,
       image_group = Rect BLACK # replicate 9 (Label None),
       fill_writes = [(0, BLACK)]\<rparr>, None)"
  by (simp add: frame_eval)

subsection \<open>The bitmap file\<close>

lemma update3:
  assumes "i + 3 \<le> length buf"
  shows "buf[i := b, i + 1 := g, i + 2 := r] = take i buf @ [b, g, r] @ drop (i + 3) buf"
proof (rule nth_equalityI)
  show "length (buf[i := b, i + 1 := g, i + 2 := r]) = length (take i buf @ [b, g, r] @ drop (i + 3) buf)"
    using assms by simp
next
  fix k assume "k < length (buf[i := b, i + 1 := g, i + 2 := r])"
  then have k: "k < length buf" by simp
  consider "k < i" | "k = i" | "k = i + 1" | "k = i + 2" | "i + 3 \<le> k" by linarith
  then show "buf[i := b, i + 1 := g, i + 2 := r] ! k = (take i buf @ [b, g, r] @ drop (i + 3) buf) ! k"
  proof cases
    case 1
    then show ?thesis using k assms by (simp add: nth_append)
  next
    case 2
    then show ?thesis using k assms by (simp add: nth_append)
  next
    case 3
    then show ?thesis using k assms by (simp add: nth_append)
  next
    case 4
    then show ?thesis using k assms by (simp add: nth_append)
  next
    case 5
    then obtain m where m: "k = i + 3 + m" using le_Suc_ex by blast
    show ?thesis using k assms unfolding m by (simp add: nth_append)
  qed
qed


lemma length_bgr_bytes: "length (bgr_bytes c) = 3"
  by (simp add: bgr_bytes_def rgb888_to_bgr888_tuple_def)


lemma fetch_col_step:
  assumes "read_fill d (row * snd (grid_axis d) + col) = Inr c" and "i + 3 \<le> length buf"
  shows "fetch_col d row col (buf, i) =
      ((take i buf @ bgr_bytes c @ drop (i + 3) buf, i + 3), None)"
proof -
  obtain b g r where t: "rgb888_to_bgr888_tuple c = (b, g, r)"
    by (cases "rgb888_to_bgr888_tuple c")
  from assms(2) have "i + 2 < length buf" by simp
  then show ?thesis
    using assms(1) t update3[OF assms(2), of b g r]
    by (simp add: fetch_col_def bgr_bytes_def)
qed

lemma fetch_cols:
  assumes "\<forall>col \<in> set cols. read_fill d (row * snd (grid_axis d) + col) = Inr (f col)"
    and "i + 3 * length cols \<le> length buf"
  shows "for_each (fetch_col d row) cols (buf, i) =
      ((take i buf @ concat (map (\<lambda>col. bgr_bytes (f col)) cols)
          @ drop (i + 3 * length cols) buf, i + 3 * length cols), None)"
  using assms
proof (induction cols arbitrary: buf i)
  case Nil
  then show ?case by simp
next
  case (Cons col cols)
  from Cons.prems have rd: "read_fill d (row * snd (grid_axis d) + col) = Inr (f col)"
    and rest: "\<forall>col \<in> set cols. read_fill d (row * snd (grid_axis d) + col) = Inr (f col)"
    and len: "i + 3 \<le> length buf" by auto
  define buf' where "buf' = take i buf @ bgr_bytes (f col) @ drop (i + 3) buf"
  have step: "fetch_col d row col (buf, i) = ((buf', i + 3), None)"
    unfolding buf'_def by (rule fetch_col_step[OF rd len])
  have len': "length buf' = length buf"
    using len by (simp add: buf'_def length_bgr_bytes)
  have fits: "i + 3 + 3 * length cols \<le> length buf'"
    using Cons.prems(2) len' by simp
  have tk: "take (i + 3) buf' = take i buf @ bgr_bytes (f col)"
    using len by (simp add: buf'_def length_bgr_bytes)
  have dr: "drop (i + 3 + 3 * length cols) buf' = drop (i + 3 + 3 * length cols) buf"
    using len by (simp add: buf'_def length_bgr_bytes ac_simps)
  have idx: "i + 3 + 3 * length cols = i + 3 * length (col # cols)" by simp
  have "for_each (fetch_col d row) cols (buf', i + 3) =
      (((take i buf @ bgr_bytes (f col)) @ concat (map (\<lambda>col. bgr_bytes (f col)) cols)
          @ drop (i + 3 * length (col # cols)) buf, i + 3 * length (col # cols)), None)"
    using Cons.IH[OF rest fits] dr unfolding tk idx by simp
  then show ?case
    by (simp add: step)
qed

lemma bytes_per_row_ge: "3 * w \<le> bytes_per_row w"
  by (simp add: bytes_per_row_def Let_def)

lemma fetch_row:
  assumes "\<forall>col < fst (grid_axis d). read_fill d (row * snd (grid_axis d) + col) = Inr (f col)"
  shows "fetch_grid_row_bgr_colors d row selfie =
      Inr (concat (map (\<lambda>col. bgr_bytes (f col))
                    (if selfie then rev [0..<fst (grid_axis d)] else [0..<fst (grid_axis d)]))
           @ replicate (bytes_per_row (fst (grid_axis d)) - 3 * fst (grid_axis d)) 0)"
proof -
  define w where "w = fst (grid_axis d)"
  define cols where "cols = (if selfie then rev [0..<w] else [0..<w])"
  have c: "\<forall>col \<in> set cols. read_fill d (row * snd (grid_axis d) + col) = Inr (f col)"
    using assms by (auto simp: cols_def w_def)
  have n: "length cols = w" by (simp add: cols_def)
  have fits: "0 + 3 * length cols \<le> length (replicate (bytes_per_row w) (0::int))"
    using bytes_per_row_ge[of w] by (simp add: n)
  have "for_each (fetch_col d row) cols (replicate (bytes_per_row w) 0, 0) =
      ((concat (map (\<lambda>col. bgr_bytes (f col)) cols) @ replicate (bytes_per_row w - 3 * w) 0,
        3 * w), None)"
    using fetch_cols[OF c fits] by (simp add: n)
  then show ?thesis
    unfolding fetch_grid_row_bgr_colors_def Let_def w_def[symmetric] cols_def[symmetric]
    by simp
qed








lemma upt_2: "[0..<2] = [0, 1::nat]"
  by (simp add: upt_conv_Cons)






subsection \<open>The bitmap of a mirrored frame\<close>

lemma take_drop_chunks:
  assumes "\<forall>x \<in> set xss. length x = n" and "k < length xss"
  shows "take n (drop (n * k) (concat xss @ ys)) = xss ! k"
  using assms
proof (induction xss arbitrary: k)
  case Nil
  then show ?case by simp
next
  case (Cons x xss)
  from Cons.prems(1) have x: "length x = n" and rest: "\<forall>x \<in> set xss. length x = n" by auto
  show ?case
  proof (cases k)
    case 0
    then show ?thesis using x by simp
  next
    case (Suc k')
    with Cons.prems(2) have k': "k' < length xss" by simp
    have "drop (n * k) (concat (x # xss) @ ys) = drop (n * k') (concat xss @ ys)"
      using x by (simp add: Suc)
    then show ?thesis using Cons.IH[OF rest k'] by (simp add: Suc)
  qed
qed

lemma row_pixels_bgr:
  assumes "length cols = w"
  shows "row_pixels w (concat (map (\<lambda>col. bgr_bytes (g col)) cols) @ pad) =
         map (\<lambda>col. bgr_bytes (g col)) cols"
proof -
  let ?xss = "map (\<lambda>col. bgr_bytes (g col)) cols"
  have len: "\<forall>x \<in> set ?xss. length x = 3" by (auto simp: length_bgr_bytes)
  have eq: "take 3 (drop (3 * k) (concat ?xss @ pad)) = ?xss ! k" if "k \<in> set [0..<w]" for k
    using that assms by (intro take_drop_chunks[OF len]) simp
  have "row_pixels w (concat ?xss @ pad) = map (\<lambda>k. ?xss ! k) [0..<w]"
    unfolding row_pixels_def by (rule map_cong[OF refl eq])
  also have "\<dots> = ?xss"
    using map_nth[of ?xss] assms by simp
  finally show ?thesis .
qed

text \<open>The pixels of an exported row are the fills of the row, in order or reversed.\<close>

lemma fetch_row_pixels:
  assumes "fst (grid_axis d) = snd (grid_axis d)"
    and "\<forall>col < fst (grid_axis d). read_fill d (screen_index d row col) = Inr (f col)"
  shows "\<exists>buf. fetch_grid_row_bgr_colors d row selfie = Inr buf \<and>
           map Inr (row_pixels (fst (grid_axis d)) buf) =
             map (map_sum id bgr_bytes)
               (if selfie then rev (screen_row d row) else screen_row d row)"
proof -
  define w where "w = fst (grid_axis d)"
  define cols where "cols = (if selfie then rev [0..<w] else [0..<w])"
  have rd: "\<forall>col < fst (grid_axis d). read_fill d (row * snd (grid_axis d) + col) = Inr (f col)"
    using assms by (simp add: screen_index_def)
  have n: "length cols = w" by (simp add: cols_def)
  have sr: "screen_row d row = map (\<lambda>col. Inr (f col)) [0..<w]"
    unfolding screen_row_def w_def[symmetric]
    using assms(2) by (simp add: screen_index_def w_def)
  have "(if selfie then rev (screen_row d row) else screen_row d row) =
      map (\<lambda>col. Inr (f col)) cols"
    by (simp add: sr cols_def rev_map)
  then have "map (map_sum id bgr_bytes)
      (if selfie then rev (screen_row d row) else screen_row d row) =
      map Inr (map (\<lambda>col. bgr_bytes (f col)) cols)"
    by simp
  moreover have "fetch_grid_row_bgr_colors d row selfie =
      Inr (concat (map (\<lambda>col. bgr_bytes (f col)) cols) @ replicate (bytes_per_row w - 3 * w) 0)"
    unfolding cols_def w_def by (rule fetch_row[OF rd])
  ultimately show ?thesis
    unfolding w_def[symmetric] by (simp add: row_pixels_bgr[OF n])
qed

lemma fetch_rows_cong:
  assumes "\<forall>row \<in> set rs. fetch_grid_row_bgr_colors d1 row s1 = fetch_grid_row_bgr_colors d2 row s2"
  shows "fetch_rows d1 s1 rs acc = fetch_rows d2 s2 rs acc"
  using assms by (induction rs arbitrary: acc) simp_all

text \<open>After a call that did not raise every cell of the grid has a fill.\<close>

lemma update_image_frame_fills:
  assumes "update_image_frame irgb grid selfie d = (d', None)"
    and "col < fst (grid_axis d)" and "row < snd (grid_axis d)"
  shows "\<exists>c. read_fill d' (col * snd (grid_axis d) + row) = Inr c"
proof -
  have "(col * snd (grid_axis d) + row, cell_color irgb d grid selfie col row)
      \<in> set (frame_tasks irgb grid selfie d)"
    by (intro frame_tasks_member assms(2,3))
  from run_tasks_cells[OF frame_tasks_distinct assms(1)[unfolded update_image_frame_tasks] this]
  show ?thesis by blast
qed

lemma update_image_frame_axis:
  "update_image_frame irgb grid selfie d = (d', r) \<Longrightarrow> grid_axis d' = grid_axis d"
  using run_tasks_config[of "frame_tasks irgb grid selfie d" d]
  by (simp add: update_image_frame_tasks)

lemma map_rev_upt: "map g (rev [0..<n]) = map (\<lambda>i. g (n - 1 - i)) [0..<n]"
  by (rule nth_equalityI) (simp_all add: rev_nth)

text \<open>
  C6, as the code has it. On a square grid, let the same normalised grid be rendered with
  selfie (display \<open>ds\<close>) and without (display \<open>dn\<close>), neither call raising. A row of \<open>ds\<close>
  as shown on the screen is the row of \<open>dn\<close> mirrored. The row that
  \<^verbatim>\<open>fetch_grid_row_bgr_colors\<close> exports from \<open>ds\<close> with \<^verbatim>\<open>selfie=True\<close> holds the pixels of
  the row of \<open>ds\<close> in reverse order: it is the mirror image of what is displayed, equal to
  the row exported from \<open>dn\<close> without mirroring, and so is the whole bitmap. The encoder
  undoes the mirroring of the display; it does not repeat it.
\<close>

theorem export_mirrors_display:
  assumes "update_image_frame irgb grid True d = (ds, None)"
    and "update_image_frame irgb grid False d = (dn, None)"
    and "fst (grid_axis d) = snd (grid_axis d)"
    and "row < snd (grid_axis d)"
  shows
    "screen_row ds row = rev (screen_row dn row) \<and>
     (\<exists>buf. fetch_grid_row_bgr_colors ds row True = Inr buf \<and>
        map Inr (row_pixels (fst (grid_axis d)) buf) =
          map (map_sum id bgr_bytes) (rev (screen_row ds row))) \<and>
     (\<exists>buf. fetch_grid_row_bgr_colors dn row False = Inr buf \<and>
        map Inr (row_pixels (fst (grid_axis d)) buf) =
          map (map_sum id bgr_bytes) (screen_row dn row)) \<and>
     fetch_grid_row_bgr_colors ds row True = fetch_grid_row_bgr_colors dn row False \<and>
     capture_grid ds True True = capture_grid dn False True"
proof -
  define A where "A = snd (grid_axis d)"
  have A0: "fst (grid_axis d) = A" using assms(3) by (simp add: A_def)
  have axs: "grid_axis ds = grid_axis d" by (rule update_image_frame_axis[OF assms(1)])
  have axn: "grid_axis dn = grid_axis d" by (rule update_image_frame_axis[OF assms(2)])
  define fs where "fs r c = projr (read_fill ds (r * A + c))" for r c
  define fn where "fn r c = projr (read_fill dn (r * A + c))" for r c
  have rs: "read_fill ds (r * A + c) = Inr (fs r c)" if "r < A" "c < A" for r c
    using update_image_frame_fills[OF assms(1), of r c] that
    by (auto simp: A0 A_def[symmetric] fs_def)
  have rn: "read_fill dn (r * A + c) = Inr (fn r c)" if "r < A" "c < A" for r c
    using update_image_frame_fills[OF assms(2), of r c] that
    by (auto simp: A0 A_def[symmetric] fn_def)
  have mir: "fs r c = fn r (A - 1 - c)" if "r < A" "c < A" for r c
  proof -
    from that have c': "A - 1 - c < A" by simp
    have "read_fill ds (r * A + c) = palette_color irgb d (cell grid r (A - 1 - c))"
      using update_image_frame_group_cell(2)[OF assms(1), of r c] that
      by (simp add: A0 A_def[symmetric] del: diff_diff_left)
    moreover have "read_fill dn (r * A + (A - 1 - c)) =
        palette_color irgb d (cell grid r (A - 1 - c))"
      using update_image_frame_group_cell(2)[OF assms(2), of r "A - 1 - c"] that c'
      by (simp add: A0 A_def[symmetric] del: diff_diff_left)
    ultimately show ?thesis
      using rs[OF that] rn[OF that(1) c'] by simp
  qed
  have sqs: "fst (grid_axis ds) = snd (grid_axis ds)" using assms(3) by (simp add: axs)
  have sqn: "fst (grid_axis dn) = snd (grid_axis dn)" using assms(3) by (simp add: axn)
  have rds: "\<forall>col < fst (grid_axis ds). read_fill ds (screen_index ds r col) = Inr (fs r col)"
    if "r < A" for r
    using rs[OF that] by (simp add: screen_index_def axs A0)
  have rdn: "\<forall>col < fst (grid_axis dn). read_fill dn (screen_index dn r col) = Inr (fn r col)"
    if "r < A" for r
    using rn[OF that] by (simp add: screen_index_def axn A0)
  have srs: "screen_row ds r = map (\<lambda>c. Inr (fs r c)) [0..<A]" if "r < A" for r
    using rs[OF that] by (simp add: screen_row_def axs A0)
  have srn: "screen_row dn r = map (\<lambda>c. Inr (fn r c)) [0..<A]" if "r < A" for r
    using rn[OF that] by (simp add: screen_row_def axn A0)
  have mirror_map: "map (\<lambda>c. h (fs r c)) [0..<A] = map (\<lambda>c. h (fn r c)) (rev [0..<A])"
    if "r < A" for r and h :: "int \<Rightarrow> 'b"
    unfolding map_rev_upt using mir[OF that] by simp
  have mirror_map': "map (\<lambda>c. h (fs r c)) (rev [0..<A]) = map (\<lambda>c. h (fn r c)) [0..<A]"
    if "r < A" for r and h :: "int \<Rightarrow> 'b"
    using mirror_map[OF that, of h] by (simp add: rev_map[symmetric] rev_swap)
  have rw: "row < A" using assms(4) by (simp add: A_def)
  have 1: "screen_row ds row = rev (screen_row dn row)"
    unfolding srs[OF rw] srn[OF rw] rev_map by (rule mirror_map[OF rw])
  have 2: "\<exists>buf. fetch_grid_row_bgr_colors ds row True = Inr buf \<and>
        map Inr (row_pixels (fst (grid_axis d)) buf) =
          map (map_sum id bgr_bytes) (rev (screen_row ds row))"
    using fetch_row_pixels[OF sqs rds[OF rw], of True] by (simp add: axs)
  have 3: "\<exists>buf. fetch_grid_row_bgr_colors dn row False = Inr buf \<and>
        map Inr (row_pixels (fst (grid_axis d)) buf) =
          map (map_sum id bgr_bytes) (screen_row dn row)"
    using fetch_row_pixels[OF sqn rdn[OF rw], of False] by (simp add: axn)
  have exp: "fetch_grid_row_bgr_colors ds r True = fetch_grid_row_bgr_colors dn r False"
    if "r < A" for r
  proof -
    have a: "\<forall>col < fst (grid_axis ds). read_fill ds (r * snd (grid_axis ds) + col) = Inr (fs r col)"
      using rs[OF that] by (simp add: axs A0 A_def[symmetric])
    have b: "\<forall>col < fst (grid_axis dn). read_fill dn (r * snd (grid_axis dn) + col) = Inr (fn r col)"
      using rn[OF that] by (simp add: axn A0 A_def[symmetric])
    show ?thesis
      unfolding fetch_row[OF a] fetch_row[OF b]
      by (simp add: axs axn A0 mirror_map'[OF that])
  qed
  have 5: "capture_grid ds True True = capture_grid dn False True"
  proof -
    have "fetch_rows ds True (rev [0..<A]) [] = fetch_rows dn False (rev [0..<A]) []"
      by (rule fetch_rows_cong) (simp add: exp)
    then show ?thesis
      by (simp add: capture_grid_def axs axn A_def[symmetric] A0)
  qed
  from 1 2 3 exp[OF rw] 5 show ?thesis by (intro conjI)
qed
theorem export_mirrors_display_witness:
  "screen_row
     \<lparr>grid_axis = (2, 2), palette_size = 100,
      image_group = [Rect WHITE, Rect BLACK, Rect WHITE, Rect BLACK] @ replicate 9 (Label None),
      fill_writes = [(0, WHITE), (1, BLACK), (2, WHITE), (3, BLACK)]\<rparr> 0 =
     [Inr WHITE, Inr BLACK] \<and>
   fetch_grid_row_bgr_colors
     \<lparr>grid_axis = (2, 2), palette_size = 100,
      image_group = [Rect WHITE, Rect BLACK, Rect WHITE, Rect BLACK] @ replicate 9 (Label None),
      fill_writes = [(0, WHITE), (1, BLACK), (2, WHITE), (3, BLACK)]\<rparr> 0 True =
     Inr [0, 0, 0, 255, 255, 255, 0, 0]"
proof -
  let ?g = "\<lparr>ncols = 2, rows = [[Fin 0, Fin 1], [Fin 0, Fin 1]]\<rparr>"
  let ?dn = "\<lparr>grid_axis = (2, 2), palette_size = 100,
       image_group = [Rect BLACK, Rect WHITE, Rect BLACK, Rect WHITE] @ replicate 9 (Label None),
       fill_writes = [(0, BLACK), (1, WHITE), (2, BLACK), (3, WHITE)]\<rparr>"
  let ?ds = "\<lparr>grid_axis = (2, 2), palette_size = 100,
       image_group = [Rect WHITE, Rect BLACK, Rect WHITE, Rect BLACK] @ replicate 9 (Label None),
       fill_writes = [(0, WHITE), (1, BLACK), (2, WHITE), (3, BLACK)]\<rparr>"
  have n: "update_image_frame ramp_palette ?g False (Display (2, 2) 100) = (?dn, None)"
    by (simp add: frame_eval)
  have s: "update_image_frame ramp_palette ?g True (Display (2, 2) 100) = (?ds, None)"
    by (simp add: frame_eval)
  have b: "fst (grid_axis (Display (2, 2) 100)) = snd (grid_axis (Display (2, 2) 100))"
    "0 < snd (grid_axis (Display (2, 2) 100))"
    by (simp_all add: Display_def)
  have rn: "\<forall>col < fst (grid_axis ?dn).
      read_fill ?dn (0 * snd (grid_axis ?dn) + col) = Inr ([BLACK, WHITE] ! col)"
    by (simp add: read_fill_def less_2_cases_iff)
  have r2: "replicate 2 (0::int) = [0, 0]"
    by (simp add: numeral_2_eq_2)
  have en: "fetch_grid_row_bgr_colors ?dn 0 False = Inr [0, 0, 0, 255, 255, 255, 0, 0]"
    unfolding fetch_row[OF rn]
    by (simp add: bytes_per_row_def bgr_bytes_def rgb888_to_bgr888_tuple_def upt_2 r2
        WHITE_def BLACK_def)
  have sn: "screen_row ?dn 0 = [Inr BLACK, Inr WHITE]"
    by (simp add: screen_row_def read_fill_def upt_2)
  from export_mirrors_display[OF s n b]
  have "screen_row ?ds 0 = rev (screen_row ?dn 0)"
    and "fetch_grid_row_bgr_colors ?ds 0 True = fetch_grid_row_bgr_colors ?dn 0 False"
    by blast+
  then show ?thesis
    unfolding en sn by simp
qed

text \<open>
  The claim as stated fails on the 2 by 2 display for the grid \<open>[[0, 1], [0, 1]]\<close> rendered
  with selfie: the top row of the screen shows white on the left and black on the right,
  and the row exported with \<^verbatim>\<open>selfie=True\<close> has the black pixel first and the white
  pixel second.
\<close>

theorem export_not_as_displayed:
  "update_image_frame ramp_palette \<lparr>ncols = 2, rows = [[Fin 0, Fin 1], [Fin 0, Fin 1]]\<rparr> True
      (Display (2, 2) 100) =
     (\<lparr>grid_axis = (2, 2), palette_size = 100,
       image_group = [Rect WHITE, Rect BLACK, Rect WHITE, Rect BLACK] @ replicate 9 (Label None),
       fill_writes = [(0, WHITE), (1, BLACK), (2, WHITE), (3, BLACK)]\<rparr>, None) \<and>
   screen_row
     \<lparr>grid_axis = (2, 2), palette_size = 100,
      image_group = [Rect WHITE, Rect BLACK, Rect WHITE, Rect BLACK] @ replicate 9 (Label None),
      fill_writes = [(0, WHITE), (1, BLACK), (2, WHITE), (3, BLACK)]\<rparr> 0 =
     [Inr WHITE, Inr BLACK] \<and>
   fetch_grid_row_bgr_colors
     \<lparr>grid_axis = (2, 2), palette_size = 100,
      image_group = [Rect WHITE, Rect BLACK, Rect WHITE, Rect BLACK] @ replicate 9 (Label None),
      fill_writes = [(0, WHITE), (1, BLACK), (2, WHITE), (3, BLACK)]\<rparr> 0 True =
     Inr (bgr_bytes BLACK @ bgr_bytes WHITE @ [0, 0]) \<and>
   bgr_bytes BLACK = [0, 0, 0] \<and> bgr_bytes WHITE = [255, 255, 255]"
proof -
  let ?ds = "\<lparr>grid_axis = (2, 2), palette_size = 100,
       image_group = [Rect WHITE, Rect BLACK, Rect WHITE, Rect BLACK] @ replicate 9 (Label None),
       fill_writes = [(0, WHITE), (1, BLACK), (2, WHITE), (3, BLACK)]\<rparr>"
  have s: "update_image_frame ramp_palette \<lparr>ncols = 2, rows = [[Fin 0, Fin 1], [Fin 0, Fin 1]]\<rparr>
      True (Display (2, 2) 100) = (?ds, None)"
    by (simp add: frame_eval)
  have rs: "\<forall>col < fst (grid_axis ?ds).
      read_fill ?ds (0 * snd (grid_axis ?ds) + col) = Inr ([WHITE, BLACK] ! col)"
    by (simp add: read_fill_def less_2_cases_iff)
  have r2: "replicate 2 (0::int) = [0, 0]"
    by (simp add: numeral_2_eq_2)
  have e: "fetch_grid_row_bgr_colors ?ds 0 True = Inr (bgr_bytes BLACK @ bgr_bytes WHITE @ [0, 0])"
    unfolding fetch_row[OF rs]
    by (simp add: bytes_per_row_def upt_2 r2 length_bgr_bytes)
  have sr: "screen_row ?ds 0 = [Inr WHITE, Inr BLACK]"
    by (simp add: screen_row_def read_fill_def upt_2)
  have c: "bgr_bytes BLACK = [0, 0, 0]" "bgr_bytes WHITE = [255, 255, 255]"
    by (simp_all add: bgr_bytes_def rgb888_to_bgr888_tuple_def WHITE_def BLACK_def)
  from s sr e c show ?thesis by (intro conjI)
qed

end
